theory Spec2Isabelle
  imports Complex_Main "HOL-Library.Product_Lexorder"
begin

section \<open>Heading classification of process\_pdfs.py\<close>

text \<open>
  The development embeds \<^verbatim>\<open>is_bold\<close>, \<^verbatim>\<open>is_heading_numbered\<close>,
  \<^verbatim>\<open>compute_heading_score\<close> and \<^verbatim>\<open>identify_headings\<close> of
  \<^verbatim>\<open>src/process_pdfs.py\<close>.

  Conventions of the embedding:
  \<^item> A Python float is the rational number it denotes (\<open>rat\<close>), and \<open>double_of x\<close> is
    the IEEE binary64 value nearest to \<open>x\<close>, a tie going to the even mantissa. Every float
    operation of the source is the exact operation followed by \<open>double_of\<close>, and a decimal
    literal of the source is \<open>double_of\<close> of its value: \<open>0.95\<close> is
    \<open>double_of (95 / 100)\<close>. The sizes and coordinates of the input are doubles. Infinities,
    NaN and overflow are not modelled; the default \<^verbatim>\<open>float('inf')\<close> of lines 262 and 269
    is the case of an absent key.
  \<^item> Python \<open>str\<close> is \<open>string\<close>, read as ASCII text. On ASCII text NFKC
    normalisation changes nothing, \<open>str.lower\<close> maps \<open>A..Z\<close> to \<open>a..z\<close>,
    \<open>str.isalnum\<close> holds of letters and digits, and whitespace (for \<open>str.strip\<close> and
    the pattern \<open>\s\<close>) is the code points 9 to 13 and 28 to 32.
  \<^item> The PDF behind \<^verbatim>\<open>pdf_path\<close> is a value \<open>pdf_doc option\<close>: \<open>None\<close> when
    \<^verbatim>\<open>fitz.open\<close> raises, otherwise the metadata title and the height of page 0.
  \<^item> A raised exception is a result \<open>Inl e\<close>.
\<close>

subsection \<open>Data\<close>

type_synonym bbox = "rat \<times> rat \<times> rat \<times> rat"

record font_span =
  sp_text :: string
  sp_font :: string
  sp_size :: rat
  sp_flags :: int
  sp_bbox :: bbox

record text_line =
  ln_text :: string
  ln_page :: int
  ln_bbox :: bbox
  ln_spans :: "font_span list"
  ln_is_centered :: bool
  ln_spacing_above :: rat
  ln_block_density :: int

text \<open>The dictionary appended to \<^verbatim>\<open>outline\<close> inside the loop, with its key \<^verbatim>\<open>y0\<close>.\<close>

record raw_entry =
  r_level :: string
  r_text :: string
  r_page :: int
  r_y0 :: rat

text \<open>The same dictionary after \<^verbatim>\<open>del entry["y0"]\<close>.\<close>

record heading_entry =
  level :: string
  e_text :: string
  e_page :: int

record pdf_doc =
  metadata_title :: "string option"
  page0_height :: rat

datatype py_error = ZeroDivisionError | FileOpenError | StatisticsError

text \<open>\<^verbatim>\<open>bbox[1]\<close> and \<^verbatim>\<open>bbox[3]\<close>.\<close>

definition bbox_y0 :: "bbox \<Rightarrow> rat" where
  "bbox_y0 b = fst (snd b)"

definition bbox_y1 :: "bbox \<Rightarrow> rat" where
  "bbox_y1 b = snd (snd (snd b))"

subsection \<open>Float arithmetic\<close>

definition pow2 :: "int \<Rightarrow> rat" where
  "pow2 k = (if k \<ge> 0 then 2 ^ nat k else 1 / 2 ^ nat (- k))"

text \<open>The number of binary digits of a positive integer.\<close>

function bit_length :: "int \<Rightarrow> int" where
  "bit_length n = (if n \<le> 0 then 0 else 1 + bit_length (n div 2))"
  by pat_completeness auto
termination
  by (relation "measure nat") auto

declare bit_length.simps [simp del]

text \<open>To the nearest integer, a tie to the even one.\<close>

definition round_half_even :: "rat \<Rightarrow> int" where
  "round_half_even t =
     (let f = \<lfloor>t\<rfloor>; d = t - of_int f
      in if d < 1 / 2 then f
         else if d > 1 / 2 then f + 1
         else if f mod 2 = 0 then f else f + 1)"

text \<open>The exponent \<open>e\<close> with \<open>2 ^ e \<le> \<bar>x\<bar> < 2 ^ (e + 1)\<close>, for \<open>x\<close> other than 0.\<close>

definition binade :: "rat \<Rightarrow> int" where
  "binade x =
     (let (p, q) = quotient_of \<bar>x\<bar>;
          d = bit_length p - bit_length q
      in if pow2 d \<le> \<bar>x\<bar> then d else d - 1)"

text \<open>
  Rounding to binary64: 53 significant bits, the least exponent of the last bit being
  \<open>- 1074\<close> (subnormal numbers).
\<close>

definition double_of :: "rat \<Rightarrow> rat" where
  "double_of x =
     (if x = 0 then 0
      else (let q = max (binade x - 52) (- 1074)
            in of_int (round_half_even (x / pow2 q)) * pow2 q))"

text \<open>The float operations \<^verbatim>\<open>+\<close>, \<^verbatim>\<open>-\<close>, \<^verbatim>\<open>*\<close> and \<^verbatim>\<open>/\<close>.\<close>

definition fadd :: "rat \<Rightarrow> rat \<Rightarrow> rat" where
  "fadd a b = double_of (a + b)"

definition fsub :: "rat \<Rightarrow> rat \<Rightarrow> rat" where
  "fsub a b = double_of (a - b)"

definition fmul :: "rat \<Rightarrow> rat \<Rightarrow> rat" where
  "fmul a b = double_of (a * b)"

definition fdiv :: "rat \<Rightarrow> rat \<Rightarrow> rat" where
  "fdiv a b = double_of (a / b)"

text \<open>
  \<^verbatim>\<open>sum(xs)\<close> of floats: from 0, one float addition per element, left to right (CPython
  up to 3.11; later versions carry a correction term for the rounding errors).
\<close>

definition py_sum :: "rat list \<Rightarrow> rat" where
  "py_sum xs = foldl fadd 0 xs"

subsection \<open>Strings\<close>

definition isdigit :: "char \<Rightarrow> bool" where
  "isdigit c = (48 \<le> (of_char c :: nat) \<and> (of_char c :: nat) \<le> 57)"

definition isalpha :: "char \<Rightarrow> bool" where
  "isalpha c = ((65 \<le> (of_char c :: nat) \<and> (of_char c :: nat) \<le> 90) \<or>
                (97 \<le> (of_char c :: nat) \<and> (of_char c :: nat) \<le> 122))"

definition isalnum :: "char \<Rightarrow> bool" where
  "isalnum c = (isalpha c \<or> isdigit c)"

definition isspace :: "char \<Rightarrow> bool" where
  "isspace c = ((9 \<le> (of_char c :: nat) \<and> (of_char c :: nat) \<le> 13) \<or>
                (28 \<le> (of_char c :: nat) \<and> (of_char c :: nat) \<le> 32))"

text \<open>\<^verbatim>\<open>sum(c.isalnum() for c in text)\<close>.\<close>

definition alnum_count :: "string \<Rightarrow> nat" where
  "alnum_count s = length (filter isalnum s)"

definition lower_char :: "char \<Rightarrow> char" where
  "lower_char c = (if 65 \<le> (of_char c :: nat) \<and> (of_char c :: nat) \<le> 90
                   then char_of ((of_char c :: nat) + 32) else c)"

definition lower :: "string \<Rightarrow> string" where
  "lower s = map lower_char s"

definition strip :: "string \<Rightarrow> string" where
  "strip s = rev (dropWhile isspace (rev (dropWhile isspace s)))"

text \<open>\<^verbatim>\<open>unicodedata.normalize("NFKC", s)\<close> on ASCII text.\<close>

definition normalize_NFKC :: "string \<Rightarrow> string" where
  "normalize_NFKC s = s"

text \<open>\<^verbatim>\<open>" ".join(parts)\<close>.\<close>

fun join_space :: "string list \<Rightarrow> string" where
  "join_space [] = []"
| "join_space [x] = x"
| "join_space (x # y # ys) = x @ '' '' @ join_space (y # ys)"

subsection \<open>is\_bold and is\_heading\_numbered\<close>

definition is_bold :: "int \<Rightarrow> bool" where
  "is_bold flags = (and flags 4 \<noteq> 0)"

text \<open>
  The pattern \<^verbatim>\<open>^\d+(\.\d+)*(\.\s|\s|$)\<close> under \<^verbatim>\<open>re.match\<close>, as a
  backtracking matcher: each piece returns every remainder of the text it can leave, the
  longest match first, and the text matches when some path through the pieces succeeds.
\<close>

text \<open>\<^verbatim>\<open>\d+\<close>\<close>

fun re_digits :: "string \<Rightarrow> string list" where
  "re_digits [] = []"
| "re_digits (c # cs) = (if isdigit c then re_digits cs @ [cs] else [])"

text \<open>\<^verbatim>\<open>\.\d+\<close>\<close>

definition re_dot_digits :: "string \<Rightarrow> string list" where
  "re_dot_digits s = (case s of [] \<Rightarrow> [] | c # cs \<Rightarrow> if c = CHR ''.'' then re_digits cs else [])"

text \<open>\<^verbatim>\<open>(\.\d+)*\<close>\<close>

function re_groups :: "string \<Rightarrow> string list" where
  "re_groups s = concat (map re_groups (re_dot_digits s)) @ [s]"
  by pat_completeness auto
termination
proof (relation "measure length")
  show "wf (measure length)" by simp
next
  fix s r :: string
  assume a: "r \<in> set (re_dot_digits s)"
  have shorter: "r \<in> set (re_digits t) \<Longrightarrow> length r < length t" for t
    by (induction t arbitrary: r) (auto split: if_splits, fastforce)
  from a have "length r < length s"
    by (auto simp: re_dot_digits_def split: list.splits if_splits dest: shorter)
  then show "(r, s) \<in> measure length" by simp
qed

declare re_groups.simps [simp del]

text \<open>\<^verbatim>\<open>(\.\s|\s|$)\<close>; \<^verbatim>\<open>$\<close> holds at the end of the text and before a final newline.\<close>

definition re_tail :: "string \<Rightarrow> bool" where
  "re_tail s =
     ((case s of c # d # _ \<Rightarrow> c = CHR ''.'' \<and> isspace d | _ \<Rightarrow> False) \<or>
      (case s of c # _ \<Rightarrow> isspace c | [] \<Rightarrow> False) \<or>
      (s = [] \<or> s = [CHR 0x0A]))"

definition is_heading_numbered :: "string \<Rightarrow> bool" where
  "is_heading_numbered text =
     (\<exists>r1 \<in> set (re_digits text). \<exists>r2 \<in> set (re_groups r1). re_tail r2)"

subsection \<open>compute\_heading\_score\<close>

text \<open>
  \<^verbatim>\<open>sum(span["size"] for span in line["spans"]) / len(line["spans"]) if line["spans"] else 0\<close>
\<close>

definition avg_size :: "text_line \<Rightarrow> rat" where
  "avg_size line =
     (if ln_spans line \<noteq> []
      then fdiv (py_sum (map sp_size (ln_spans line))) (of_nat (length (ln_spans line)))
      else 0)"

text \<open>Lines 122 to 128: the bonus for matching heading sizes.\<close>

definition tier_bonus :: "(string \<rightharpoonup> rat) \<Rightarrow> rat \<Rightarrow> int" where
  "tier_bonus heading_size_map a =
     (if heading_size_map ''H1'' \<noteq> None \<and>
         a \<ge> fmul (the (heading_size_map ''H1'')) (double_of (95 / 100)) then 25
      else if heading_size_map ''H2'' \<noteq> None \<and>
         a \<ge> fmul (the (heading_size_map ''H2'')) (double_of (95 / 100)) then 20
      else if heading_size_map ''H3'' \<noteq> None \<and>
         a \<ge> fmul (the (heading_size_map ''H3'')) (double_of (95 / 100)) then 15
      else 0)"

definition compute_heading_score :: "text_line \<Rightarrow> (string \<rightharpoonup> rat) \<Rightarrow> rat \<Rightarrow> int" where
  "compute_heading_score line heading_size_map body_text_size =
     (let a = avg_size line;
          is_any_bold = (\<exists>span \<in> set (ln_spans line). is_bold (sp_flags span));
          is_numbered = is_heading_numbered (ln_text line);
          is_short = (length (ln_text line) < 80);
          is_centered = ln_is_centered line;
          spacing_above = (if ln_spacing_above line > 0 then ln_spacing_above line else 0);
          is_sparse = (ln_block_density line \<le> 3)
      in (if a > fmul body_text_size (double_of (12 / 10)) then 40 else 0)
       + (if is_any_bold then 25 else 0)
       + (if is_numbered then 25 else 0)
       + (if is_short then 20 else 0)
       + (if is_centered then 15 else 0)
       + (if spacing_above > fmul a 2 then 20 else 0)
       + (if is_sparse then 15 else 0)
       + tier_bonus heading_size_map a)"

subsection \<open>Typography profile (lines 150 to 174)\<close>

definition all_font_sizes :: "text_line list \<Rightarrow> rat list" where
  "all_font_sizes lines = filter (\<lambda>s. s > 6) (concat (map (\<lambda>line. map sp_size (ln_spans line)) lines))"

text \<open>\<^verbatim>\<open>statistics.median\<close>; \<open>None\<close> is its \<^verbatim>\<open>StatisticsError\<close> on no data.\<close>

definition median :: "rat list \<Rightarrow> rat option" where
  "median data_in =
     (let data = sort data_in; n = length data
      in if n = 0 then None
         else if n mod 2 = 1 then Some (data ! (n div 2))
         else Some (fdiv (fadd (data ! (n div 2 - 1)) (data ! (n div 2))) 2))"

text \<open>
  \<^verbatim>\<open>round(s, 1)\<close>: the exact value of the double \<open>s\<close> is rounded to the nearest
  tenth, a tie to the even tenth, and the result is the double nearest to that tenth.
\<close>

definition round1 :: "rat \<Rightarrow> rat" where
  "round1 s = double_of (of_int (round_half_even (s * 10)) / 10)"

text \<open>
  \<^verbatim>\<open>Counter(xs).most_common()\<close>: the distinct elements in order of first occurrence
  with their counts, sorted by falling count; the sort is stable.
\<close>

definition counter_items :: "'a list \<Rightarrow> ('a \<times> nat) list" where
  "counter_items xs = map (\<lambda>x. (x, count_list xs x)) (rev (remdups (rev xs)))"

definition most_common :: "'a list \<Rightarrow> ('a \<times> nat) list" where
  "most_common xs = sort_key (\<lambda>p. - int (snd p)) (counter_items xs)"

text \<open>Lines 155 to 158.\<close>

definition body_text_size_of :: "rat list \<Rightarrow> rat option" where
  "body_text_size_of sizes =
     (case median sizes of
        None \<Rightarrow> None
      | Some body_text_size \<Rightarrow>
          (let size_counts = most_common (map round1 sizes)
           in if size_counts \<noteq> [] then Some (max body_text_size (fst (hd size_counts)))
              else Some body_text_size))"

text \<open>Lines 161 to 164: \<^verbatim>\<open>sorted(list(set(...)), reverse=True)\<close>.\<close>

definition potential_heading_sizes :: "rat list \<Rightarrow> rat \<Rightarrow> rat list" where
  "potential_heading_sizes sizes body_text_size =
     rev (sort (remdups (filter (\<lambda>s. s > fmul body_text_size (double_of (12 / 10))) sizes)))"

text \<open>Lines 166 to 174.\<close>

definition build_heading_size_map :: "rat list \<Rightarrow> (string \<rightharpoonup> rat)" where
  "build_heading_size_map phs =
     (let m0 = Map.empty;
          m1 = (if phs \<noteq> [] then m0(''H1'' \<mapsto> phs ! 0) else m0);
          m2 = (if length phs \<ge> 2 \<and> phs ! 1 < fmul (phs ! 0) (double_of (95 / 100))
                then m1(''H2'' \<mapsto> phs ! 1) else m1);
          m3 = (if length phs \<ge> 3 \<and> phs ! 2 < fmul (phs ! 0) (double_of (95 / 100))
                then m2(''H3'' \<mapsto> phs ! 2) else m2);
          m4 = (if length phs \<ge> 4 \<and> phs ! 3 < fmul (phs ! 0) (double_of (95 / 100))
                then m3(''H4'' \<mapsto> phs ! 3) else m3)
      in m4)"

subsection \<open>Title detection (lines 139 to 148 and 177 to 230)\<close>

definition metadata_title_of :: "pdf_doc option \<Rightarrow> string" where
  "metadata_title_of pdf =
     (case pdf of
        None \<Rightarrow> ''No Title Found''
      | Some doc \<Rightarrow>
          (case metadata_title doc of
             None \<Rightarrow> ''No Title Found''
           | Some t \<Rightarrow>
               if t \<noteq> [] \<and> strip t \<noteq> [] \<and> alnum_count t \<ge> 3
               then normalize_NFKC (strip t)
               else ''No Title Found''))"

definition first_page_lines :: "text_line list \<Rightarrow> text_line list" where
  "first_page_lines lines =
     sort_key (\<lambda>x. bbox_y0 (ln_bbox x)) (filter (\<lambda>line. ln_page line = 1) lines)"

record cluster_state =
  title_candidates :: "text_line list list"
  current_title :: "text_line list"
  prev_size :: "rat option"
  prev_y1 :: "rat option"

text \<open>The body of the loop of lines 187 to 200.\<close>

definition cluster_step :: "cluster_state \<Rightarrow> text_line \<Rightarrow> cluster_state" where
  "cluster_step st line =
     (let a = avg_size line;
          st' =
            (if prev_size st = None \<or>
                (prev_y1 st \<noteq> None \<and>
                 fsub (bbox_y0 (ln_bbox line)) (the (prev_y1 st)) < fmul a (double_of (15 / 10)) \<and>
                 \<bar>fsub a (the (prev_size st))\<bar> < 1)
             then st\<lparr>current_title := current_title st @ [line]\<rparr>
             else (if current_title st \<noteq> []
                   then st\<lparr>title_candidates := title_candidates st @ [current_title st]\<rparr>
                   else st)\<lparr>current_title := [line]\<rparr>)
      in st'\<lparr>prev_size := Some a, prev_y1 := Some (bbox_y1 (ln_bbox line))\<rparr>)"

definition cluster_title_lines :: "text_line list \<Rightarrow> text_line list list" where
  "cluster_title_lines fpl =
     (let st = foldl cluster_step
                 \<lparr>title_candidates = [], current_title = [], prev_size = None, prev_y1 = None\<rparr> fpl
      in if current_title st \<noteq> [] then title_candidates st @ [current_title st]
         else title_candidates st)"

text \<open>
  Lines 210 to 224: the score of one candidate. The average of line 210 divides by
  \<^verbatim>\<open>len(line["spans"])\<close> unguarded, and line 221 opens the PDF again.
\<close>

definition title_score :: "text_line list \<Rightarrow> rat \<Rightarrow> pdf_doc option \<Rightarrow> py_error + int" where
  "title_score candidate body_text_size pdf =
     (if \<exists>line \<in> set candidate. ln_spans line = [] then Inl ZeroDivisionError
      else
        (let a = fdiv (py_sum (map (\<lambda>line. fdiv (py_sum (map sp_size (ln_spans line)))
                                                    (of_nat (length (ln_spans line)))) candidate))
                      (of_nat (length candidate))
         in case pdf of
              None \<Rightarrow> Inl FileOpenError
            | Some doc \<Rightarrow>
                Inr ((if a > fmul body_text_size (double_of (13 / 10)) then 40 else 0)
                   + (if \<exists>line \<in> set candidate. ln_is_centered line then 25 else 0)
                   + (if \<exists>line \<in> set candidate. \<exists>span \<in> set (ln_spans line).
                            is_bold (sp_flags span) then 25 else 0)
                   + (if bbox_y0 (ln_bbox (hd candidate)) < fmul (double_of (25 / 100)) (page0_height doc)
                      then 30 else 0)
                   + (if length candidate = 1 \<or>
                         (length candidate > 1 \<and>
                          (\<forall>line \<in> set candidate. ln_block_density line \<le> 3))
                      then 20 else 0))))"

text \<open>
  The body of the loop of lines 206 to 227, on the pair
  \<^verbatim>\<open>(best_title_score, best_title_text)\<close>.
\<close>

definition best_title_step :: "rat \<Rightarrow> pdf_doc option \<Rightarrow> int \<times> string \<Rightarrow> text_line list
                                \<Rightarrow> py_error + (int \<times> string)" where
  "best_title_step body_text_size pdf best candidate =
     (let text = join_space (map ln_text candidate)
      in if alnum_count text < 3 \<or> length text < 5 then Inr best
         else
           (case title_score candidate body_text_size pdf of
              Inl e \<Rightarrow> Inl e
            | Inr score \<Rightarrow>
                if score > fst best \<and> score \<ge> 80 then Inr (score, text) else Inr best))"

fun best_title :: "text_line list list \<Rightarrow> rat \<Rightarrow> pdf_doc option \<Rightarrow> int \<times> string
                   \<Rightarrow> py_error + (int \<times> string)" where
  "best_title [] body_text_size pdf best = Inr best"
| "best_title (candidate # rest) body_text_size pdf best =
     (case best_title_step body_text_size pdf best candidate of
        Inl e \<Rightarrow> Inl e
      | Inr best' \<Rightarrow> best_title rest body_text_size pdf best')"

text \<open>Lines 177 to 230: the title after the visual detection.\<close>

definition detect_title :: "text_line list \<Rightarrow> rat \<Rightarrow> pdf_doc option \<Rightarrow> string \<Rightarrow> py_error + string" where
  "detect_title lines body_text_size pdf title =
     (case best_title (cluster_title_lines (first_page_lines lines)) body_text_size pdf (0, title) of
        Inl e \<Rightarrow> Inl e
      | Inr (best_title_score, best_title_text) \<Rightarrow>
          Inr (if best_title_score \<ge> 80 then best_title_text else title))"

subsection \<open>The heading loop (lines 232 to 279)\<close>

record scan_state =
  outline :: "raw_entry list"
  seen_headings :: "(string \<times> int \<times> string) set"
  headings_per_page :: "int \<Rightarrow> nat"

text \<open>Lines 251 to 272.\<close>

definition assign_level :: "(string \<rightharpoonup> rat) \<Rightarrow> rat \<Rightarrow> int \<Rightarrow> string option" where
  "assign_level heading_size_map a score =
     (if heading_size_map ''H1'' \<noteq> None \<and>
         a \<ge> fmul (the (heading_size_map ''H1'')) (double_of (95 / 100)) \<and>
         score \<ge> 100
      then Some ''H1''
      else if heading_size_map ''H2'' \<noteq> None \<and>
         a \<ge> fmul (the (heading_size_map ''H2'')) (double_of (95 / 100)) \<and>
         (case heading_size_map ''H1'' of
            None \<Rightarrow> True | Some h \<Rightarrow> a < fmul h (double_of (95 / 100))) \<and>
         score \<ge> 90
      then Some ''H2''
      else if heading_size_map ''H3'' \<noteq> None \<and>
         a \<ge> fmul (the (heading_size_map ''H3'')) (double_of (95 / 100)) \<and>
         (case heading_size_map ''H2'' of
            None \<Rightarrow> True | Some h \<Rightarrow> a < fmul h (double_of (95 / 100))) \<and>
         score \<ge> 80
      then Some ''H3''
      else None)"

text \<open>\<^verbatim>\<open>(text.lower().strip(), page, level)\<close>\<close>

definition heading_identifier :: "string \<Rightarrow> int \<Rightarrow> string \<Rightarrow> string \<times> int \<times> string" where
  "heading_identifier text page lvl = (strip (lower text), page, lvl)"

text \<open>The body of the loop of lines 237 to 279; each \<^verbatim>\<open>continue\<close> returns the state as it is.\<close>

definition scan_step :: "(string \<rightharpoonup> rat) \<Rightarrow> rat \<Rightarrow> string \<Rightarrow> scan_state \<Rightarrow> text_line \<Rightarrow> scan_state" where
  "scan_step heading_size_map body_text_size title st line =
     (let text = ln_text line; page = ln_page line
      in if alnum_count text < 2 \<or> length text < 3 then st
         else if headings_per_page st page > 8 then st
         else if ln_block_density line > 5 then st
         else
           (let score = compute_heading_score line heading_size_map body_text_size
            in if score < 80 then st
               else
                 (case assign_level heading_size_map (avg_size line) score of
                    None \<Rightarrow> st
                  | Some lvl \<Rightarrow>
                      if text \<noteq> title \<and> heading_identifier text page lvl \<notin> seen_headings st
                      then \<lparr>outline = outline st @
                              [\<lparr>r_level = lvl, r_text = text, r_page = page,
                                r_y0 = bbox_y0 (ln_bbox line)\<rparr>],
                            seen_headings = insert (heading_identifier text page lvl) (seen_headings st),
                            headings_per_page = (headings_per_page st)(page := headings_per_page st page + 1)\<rparr>
                      else st)))"

definition scan_lines :: "(string \<rightharpoonup> rat) \<Rightarrow> rat \<Rightarrow> string \<Rightarrow> text_line list \<Rightarrow> scan_state" where
  "scan_lines heading_size_map body_text_size title lines =
     foldl (scan_step heading_size_map body_text_size title)
       \<lparr>outline = [], seen_headings = {}, headings_per_page = (\<lambda>_. 0)\<rparr> lines"

subsection \<open>Ordering, fallback and the whole function\<close>

text \<open>Line 282: \<^verbatim>\<open>outline.sort(key=lambda x: (x["page"], x["y0"]))\<close>; tuples compare lexicographically.\<close>

definition sort_outline :: "raw_entry list \<Rightarrow> raw_entry list" where
  "sort_outline entries = sort_key (\<lambda>x. (r_page x, r_y0 x)) entries"

text \<open>Lines 283 and 284.\<close>

definition del_y0 :: "raw_entry \<Rightarrow> heading_entry" where
  "del_y0 x = \<lparr>level = r_level x, e_text = r_text x, e_page = r_page x\<rparr>"

text \<open>Lines 286 to 292.\<close>

definition fallback :: "string \<Rightarrow> heading_entry list \<Rightarrow> string \<times> heading_entry list" where
  "fallback title entries =
     (if title = ''No Title Found'' \<and> entries \<noteq> []
      then (case find (\<lambda>entry. level entry = ''H1'') entries of
              None \<Rightarrow> (title, entries)
            | Some entry \<Rightarrow>
                (e_text entry,
                 filter (\<lambda>e. \<not> (e_text e = e_text entry \<and> e_page e = e_page entry)) entries))
      else (title, entries))"

text \<open>
  Lines 136 to 279: the title, and the outline as the loop leaves it (in encounter order,
  each entry with its \<^verbatim>\<open>y0\<close>). The two early returns of lines 137 and 153 carry
  an empty outline.
\<close>

definition collect_headings :: "text_line list \<Rightarrow> pdf_doc option \<Rightarrow> py_error + (string \<times> raw_entry list)" where
  "collect_headings lines pdf =
     (if lines = [] then Inr (''No Title Found'', [])
      else
        (let title = metadata_title_of pdf;
             sizes = all_font_sizes lines
         in if sizes = [] then Inr (title, [])
            else
              (case body_text_size_of sizes of
                 None \<Rightarrow> Inl StatisticsError
               | Some body_text_size \<Rightarrow>
                   (let heading_size_map =
                          build_heading_size_map (potential_heading_sizes sizes body_text_size)
                    in case detect_title lines body_text_size pdf title of
                         Inl e \<Rightarrow> Inl e
                       | Inr title' \<Rightarrow>
                           Inr (title',
                                outline (scan_lines heading_size_map body_text_size title' lines))))))"

text \<open>Lines 136 to 284: the title and the outline as they reach the fallback.\<close>

definition assemble :: "text_line list \<Rightarrow> pdf_doc option \<Rightarrow> py_error + (string \<times> heading_entry list)" where
  "assemble lines pdf =
     (case collect_headings lines pdf of
        Inl e \<Rightarrow> Inl e
      | Inr (title, entries) \<Rightarrow> Inr (title, map del_y0 (sort_outline entries)))"

text \<open>
  \<^verbatim>\<open>identify_headings(lines, pdf_path)\<close>. An early return skips lines 281 to 292 in the
  source; here its empty outline passes through the sort and through \<open>fallback\<close>, which
  leave an empty outline and its title as they are.
\<close>

definition identify_headings :: "text_line list \<Rightarrow> pdf_doc option \<Rightarrow> py_error + (string \<times> heading_entry list)" where
  "identify_headings lines pdf =
     (case assemble lines pdf of
        Inl e \<Rightarrow> Inl e
      | Inr (title, entries) \<Rightarrow> Inr (fallback title entries))"

subsection \<open>Notions used by the statements\<close>

text \<open>The entry line 277 builds from a line once its level is known.\<close>

definition entry_of_line :: "string \<Rightarrow> text_line \<Rightarrow> raw_entry" where
  "entry_of_line lvl line =
     \<lparr>r_level = lvl, r_text = ln_text line, r_page = ln_page line, r_y0 = bbox_y0 (ln_bbox line)\<rparr>"

definition raw_identifier :: "raw_entry \<Rightarrow> string \<times> int \<times> string" where
  "raw_identifier r = heading_identifier (r_text r) (r_page r) (r_level r)"

definition entry_identifier :: "heading_entry \<Rightarrow> string \<times> int \<times> string" where
  "entry_identifier e = heading_identifier (e_text e) (e_page e) (level e)"

text \<open>The key of the sort of line 282, and reading order on entries that carry their \<^verbatim>\<open>y0\<close>.\<close>

definition sort_key_of :: "raw_entry \<Rightarrow> int \<times> rat" where
  "sort_key_of x = (r_page x, r_y0 x)"

definition reading_order :: "raw_entry \<Rightarrow> raw_entry \<Rightarrow> bool" where
  "reading_order a b = (r_page a < r_page b \<or> (r_page a = r_page b \<and> r_y0 a \<le> r_y0 b))"

text \<open>The keys of \<^verbatim>\<open>heading_size_map\<close>, largest tier first.\<close>

definition tier_names :: "string list" where
  "tier_names = [''H1'', ''H2'', ''H3'', ''H4'']"

text \<open>The invariant of the loop of lines 237 to 279.\<close>

definition scan_inv :: "string \<Rightarrow> text_line list \<Rightarrow> scan_state \<Rightarrow> bool" where
  "scan_inv title lines st =
     (seen_headings st = raw_identifier ` set (outline st) \<and>
      distinct (map raw_identifier (outline st)) \<and>
      (\<forall>p. headings_per_page st p = length (filter (\<lambda>r. r_page r = p) (outline st))) \<and>
      (\<forall>p. headings_per_page st p \<le> 9) \<and>
      (\<forall>r \<in> set (outline st). r_text r \<noteq> title \<and>
          r_level r \<in> {''H1'', ''H2'', ''H3''} \<and>
          (\<exists>l \<in> set lines. r = entry_of_line (r_level r) l)))"

subsection \<open>Example documents\<close>

definition example_line :: "string \<Rightarrow> int \<Rightarrow> rat \<Rightarrow> rat \<Rightarrow> int \<Rightarrow> int \<Rightarrow> text_line" where
  "example_line t p y sz fl dens =
     \<lparr>ln_text = t, ln_page = p, ln_bbox = (72, y, 300, y + sz),
      ln_spans = [\<lparr>sp_text = t, sp_font = ''F'', sp_size = sz, sp_flags = fl, sp_bbox = (72, y, 300, y + sz)\<rparr>],
      ln_is_centered = True, ln_spacing_above = 0, ln_block_density = dens\<rparr>"

definition body_line :: "string \<Rightarrow> int \<Rightarrow> rat \<Rightarrow> text_line" where
  "body_line t p y =
     \<lparr>ln_text = t, ln_page = p, ln_bbox = (72, y, 500, y + 12),
      ln_spans = replicate 6 \<lparr>sp_text = ''body'', sp_font = ''F'', sp_size = 12, sp_flags = 0, sp_bbox = (72, y, 100, y + 12)\<rparr>,
      ln_is_centered = False, ln_spacing_above = 2, ln_block_density = 10\<rparr>"

definition body_lines :: "text_line list" where
  "body_lines = [body_line ''body text here'' 2 700, body_line ''more body text'' 2 720,
                 body_line ''even more body'' 3 740]"

definition crowded_page :: "text_line list" where
  "crowded_page = map (\<lambda>t. example_line t 2 100 24 4 1)
      [''Part A'', ''Part B'', ''Part C'', ''Part D'', ''Part E'', ''Part F'', ''Part G'', ''Part H'',
       ''Part I'', ''Part J'', ''Part K''] @ body_lines"


definition report_pdf :: "pdf_doc option" where
  "report_pdf = Some \<lparr>metadata_title = Some ''Report'', page0_height = 800\<rparr>"

definition duplicate_page :: "text_line list" where
  "duplicate_page = [example_line ''Part A'' 2 100 24 4 1, example_line ''PART A'' 2 150 24 4 1,
                     example_line ''Part A'' 3 100 24 4 1] @ body_lines"

definition shuffled_pages :: "text_line list" where
  "shuffled_pages = [example_line ''Part C'' 3 100 24 4 1, example_line ''Part B'' 2 300 24 4 1,
                     example_line ''Part A'' 2 100 24 4 1] @ body_lines"

definition two_chapters :: "text_line list" where
  "two_chapters = [example_line ''Chapter 1'' 2 100 24 4 1, example_line ''Chapter 1'' 3 100 24 4 1]
                  @ body_lines"

definition only_sections :: "text_line list" where
  "only_sections = [example_line ''A very large line'' 2 100 24 4 10,
                    example_line ''Section A'' 2 300 20 4 1] @ body_lines"


definition tier_gap_page :: "text_line list" where
  "tier_gap_page = [example_line ''Part A'' 2 100 20 4 1, example_line ''Part B'' 2 200 (39 / 2) 4 1,
                    example_line ''Part C'' 2 300 18 4 1] @ body_lines"

section \<open>Properties\<close>

subsection \<open>Float arithmetic\<close>

text \<open>
  The doubles of \<open>1.2\<close>, \<open>0.95\<close>, \<open>1.3\<close> and \<open>14.4\<close>, the products \<open>12 * 1.2\<close>,
  \<open>16.6 * 0.95\<close> and \<open>20 * 0.95\<close>, and the sum of \<open>0.1\<close>, \<open>0.2\<close> and \<open>0.3\<close>, as
  CPython computes them.
\<close>

lemma double_of_examples:
  "double_of (12 / 10) = 5404319552844595 / 4503599627370496"
  "double_of (95 / 100) = 4278419646001971 / 4503599627370496"
  "double_of (13 / 10) = 5854679515581645 / 4503599627370496"
  "double_of (144 / 10) = 8106479329266893 / 562949953421312"
  "fmul 12 (double_of (12 / 10)) = 2026619832316723 / 140737488355328"
  "fmul (double_of (166 / 10)) (double_of (95 / 100)) = 8877720765454091 / 562949953421312"
  "fmul 20 (double_of (95 / 100)) = 19"
  "py_sum [double_of (1 / 10), double_of (2 / 10), double_of (3 / 10)]
     = 1351079888211149 / 2251799813685248"
  "double_of (- 1 / 3) = - (6004799503160661 / 18014398509481984)"
  "double_of 12 = 12" "double_of (39 / 2) = 39 / 2"
  by code_simp+

subsection \<open>The heading loop\<close>

lemma assign_level_range: "assign_level m a s = Some lvl \<Longrightarrow> lvl \<in> {''H1'', ''H2'', ''H3''}"
  by (auto simp: assign_level_def split: if_splits)

lemma scan_inv_init: "scan_inv title lines \<lparr>outline = [], seen_headings = {}, headings_per_page = (\<lambda>_. 0)\<rparr>"
  by (simp add: scan_inv_def)

lemma scan_step_cases:
  "scan_step m b title st line = st \<or>
   (\<exists>lvl. assign_level m (avg_size line) (compute_heading_score line m b) = Some lvl \<and>
      ln_text line \<noteq> title \<and>
      heading_identifier (ln_text line) (ln_page line) lvl \<notin> seen_headings st \<and>
      \<not> headings_per_page st (ln_page line) > 8 \<and>
      scan_step m b title st line =
        \<lparr>outline = outline st @ [entry_of_line lvl line],
         seen_headings = insert (heading_identifier (ln_text line) (ln_page line) lvl) (seen_headings st),
         headings_per_page = (headings_per_page st)(ln_page line := headings_per_page st (ln_page line) + 1)\<rparr>)"
  by (auto simp: scan_step_def Let_def entry_of_line_def split: option.splits)

lemma scan_inv_step:
  assumes "scan_inv title lines st" and "line \<in> set lines"
  shows "scan_inv title lines (scan_step m b title st line)"
proof -
  from scan_step_cases [of m b title st line]
  show ?thesis
  proof
    assume "scan_step m b title st line = st"
    with assms show ?thesis by simp
  next
    assume "\<exists>lvl. assign_level m (avg_size line) (compute_heading_score line m b) = Some lvl \<and>
      ln_text line \<noteq> title \<and>
      heading_identifier (ln_text line) (ln_page line) lvl \<notin> seen_headings st \<and>
      \<not> headings_per_page st (ln_page line) > 8 \<and>
      scan_step m b title st line =
        \<lparr>outline = outline st @ [entry_of_line lvl line],
         seen_headings = insert (heading_identifier (ln_text line) (ln_page line) lvl) (seen_headings st),
         headings_per_page = (headings_per_page st)(ln_page line := headings_per_page st (ln_page line) + 1)\<rparr>"
    then obtain lvl where
      lv: "assign_level m (avg_size line) (compute_heading_score line m b) = Some lvl" and
      nt: "ln_text line \<noteq> title" and
      ns: "heading_identifier (ln_text line) (ln_page line) lvl \<notin> seen_headings st" and
      cap: "\<not> headings_per_page st (ln_page line) > 8" and
      eq: "scan_step m b title st line =
        \<lparr>outline = outline st @ [entry_of_line lvl line],
         seen_headings = insert (heading_identifier (ln_text line) (ln_page line) lvl) (seen_headings st),
         headings_per_page = (headings_per_page st)(ln_page line := headings_per_page st (ln_page line) + 1)\<rparr>"
      by blast
    have rid: "raw_identifier (entry_of_line lvl line) = heading_identifier (ln_text line) (ln_page line) lvl"
      by (simp add: raw_identifier_def entry_of_line_def)
    have lvr: "lvl \<in> {''H1'', ''H2'', ''H3''}" using lv by (rule assign_level_range)
    from assms(1) have
      i1: "seen_headings st = raw_identifier ` set (outline st)" and
      i2: "distinct (map raw_identifier (outline st))" and
      i3: "\<And>p. headings_per_page st p = length (filter (\<lambda>r. r_page r = p) (outline st))" and
      i4: "\<And>p. headings_per_page st p \<le> 9" and
      i5: "\<And>r. r \<in> set (outline st) \<Longrightarrow> r_text r \<noteq> title \<and>
          r_level r \<in> {''H1'', ''H2'', ''H3''} \<and>
          (\<exists>l \<in> set lines. r = entry_of_line (r_level r) l)"
      by (auto simp: scan_inv_def)
    have n1: "seen_headings (scan_step m b title st line) = raw_identifier ` set (outline (scan_step m b title st line))"
      by (simp add: eq rid i1)
    have n2: "distinct (map raw_identifier (outline (scan_step m b title st line)))"
      using i2 ns by (simp add: eq rid i1)
    have n3: "headings_per_page (scan_step m b title st line) p = length (filter (\<lambda>r. r_page r = p) (outline (scan_step m b title st line)))" for p
      by (simp add: eq i3 entry_of_line_def)
    have n4: "headings_per_page (scan_step m b title st line) p \<le> 9" for p
      using cap i4 [of p] by (simp add: eq)
    have n5: "r_text r \<noteq> title \<and> r_level r \<in> {''H1'', ''H2'', ''H3''} \<and>
          (\<exists>l \<in> set lines. r = entry_of_line (r_level r) l)"
      if "r \<in> set (outline (scan_step m b title st line))" for r
    proof -
      from that have "r \<in> set (outline st) \<or> r = entry_of_line lvl line" by (auto simp: eq)
      then show ?thesis
      proof
        assume "r \<in> set (outline st)" then show ?thesis by (rule i5)
      next
        assume r: "r = entry_of_line lvl line"
        then have "r_level r = lvl" "r_text r = ln_text line" by (simp_all add: entry_of_line_def)
        with r nt lvr assms(2) show ?thesis by auto
      qed
    qed
    show ?thesis unfolding scan_inv_def using n1 n2 n3 n4 n5 by blast
  qed
qed

lemma scan_inv_foldl:
  "scan_inv title lines st \<Longrightarrow> set ls \<subseteq> set lines \<Longrightarrow>
   scan_inv title lines (foldl (scan_step m b title) st ls)"
  by (induction ls arbitrary: st) (simp_all add: scan_inv_step)

lemma scan_inv_scan_lines: "scan_inv title lines (scan_lines m b title lines)"
  unfolding scan_lines_def by (rule scan_inv_foldl [OF scan_inv_init]) simp

lemma collect_headings_Inr:
  assumes "collect_headings lines pdf = Inr (title, entries)"
  shows "\<exists>st. scan_inv title lines st \<and> entries = outline st"
proof (cases "entries = []")
  case True
  have "scan_inv title lines \<lparr>outline = [], seen_headings = {}, headings_per_page = (\<lambda>_. 0)\<rparr>"
    by (rule scan_inv_init)
  moreover have "entries = outline \<lparr>outline = [], seen_headings = {}, headings_per_page = (\<lambda>_. 0)\<rparr>"
    using True by simp
  ultimately show ?thesis by blast
next
  case False
  with assms obtain m b where "entries = outline (scan_lines m b title lines)"
    by (auto simp: collect_headings_def Let_def split: if_splits option.splits sum.splits)
  with scan_inv_scan_lines [of title lines m b] show ?thesis by blast
qed

lemma crowded_eval:
  "identify_headings crowded_page report_pdf =
     Inr (''Report'', map (\<lambda>t. \<lparr>level = ''H1'', e_text = t, e_page = 2\<rparr>)
       [''Part A'', ''Part B'', ''Part C'', ''Part D'', ''Part E'', ''Part F'', ''Part G'', ''Part H'', ''Part I''])"
  by code_simp

subsection \<open>Sorting and the fallback\<close>

lemma sort_outline_reading_order: "sorted_wrt reading_order (sort_outline xs)"
proof -
  have "sorted (map (\<lambda>x. (r_page x, r_y0 x)) (sort_key (\<lambda>x. (r_page x, r_y0 x)) xs))"
    by (rule sorted_sort_key)
  then have "sorted_wrt (\<lambda>a b. (r_page a, r_y0 a) \<le> (r_page b, r_y0 b)) (sort_outline xs)"
    by (simp add: sorted_map sort_outline_def)
  then show ?thesis
    by (rule sorted_wrt_mono_rel [rotated]) (auto simp: reading_order_def less_eq_prod_def)
qed

lemma sort_outline_stable:
  "filter (\<lambda>x. sort_key_of x = k) (sort_outline xs) = filter (\<lambda>x. sort_key_of x = k) xs"
  unfolding sort_outline_def sort_key_of_def by (rule sort_key_stable)

lemma set_sort_outline: "set (sort_outline xs) = set xs"
  by (simp add: sort_outline_def)

lemma length_filter_filter_le: "length (filter P (filter Q xs)) \<le> length (filter P xs)"
  by (induction xs) auto

lemma length_filter_sort_outline:
  "length (filter P (sort_outline xs)) = length (filter P xs)"
  by (simp add: sort_outline_def filter_sort)

lemma distinct_map_sort_outline:
  "distinct (map f (sort_outline xs)) = distinct (map f xs)"
  by (simp add: sort_outline_def distinct_map)

lemma fallback_filter: "\<exists>Q. snd (fallback title es) = filter Q es"
proof (cases "snd (fallback title es) = es")
  case True
  then have "snd (fallback title es) = filter (\<lambda>_. True) es" by simp
  then show ?thesis by blast
next
  case False
  then show ?thesis
    by (auto simp: fallback_def split: if_splits option.splits)
qed

lemma identify_headings_Inr:
  assumes "identify_headings lines pdf = Inr (title, entries)"
  shows "\<exists>t0 st Q. collect_headings lines pdf = Inr (t0, outline st) \<and> scan_inv t0 lines st \<and>
            fallback t0 (map del_y0 (sort_outline (outline st))) = (title, entries) \<and>
            entries = filter Q (map del_y0 (sort_outline (outline st)))"
proof -
  from assms obtain t0 es where a: "assemble lines pdf = Inr (t0, es)" and f: "fallback t0 es = (title, entries)"
    by (auto simp: identify_headings_def split: sum.splits)
  from a obtain raws where c: "collect_headings lines pdf = Inr (t0, raws)" and es: "es = map del_y0 (sort_outline raws)"
    by (auto simp: assemble_def split: sum.splits)
  from collect_headings_Inr [OF c] obtain st where st: "scan_inv t0 lines st" "raws = outline st" by blast
  from fallback_filter [of t0 es] f obtain Q where "entries = filter Q es" by auto
  with c es st f show ?thesis by blast
qed


lemma del_y0_fields [simp]:
  "level (del_y0 r) = r_level r" "e_text (del_y0 r) = r_text r" "e_page (del_y0 r) = r_page r"
  by (simp_all add: del_y0_def)

lemma entry_identifier_del_y0: "entry_identifier (del_y0 r) = raw_identifier r"
  by (simp add: entry_identifier_def raw_identifier_def)

lemma scan_inv_cap:
  assumes "scan_inv title lines st"
  shows "length (filter (\<lambda>r. r_page r = p) (outline st)) \<le> 9"
proof -
  from assms have "headings_per_page st p = length (filter (\<lambda>r. r_page r = p) (outline st))"
    and "headings_per_page st p \<le> 9"
    unfolding scan_inv_def by blast+
  then show ?thesis by simp
qed

subsection \<open>Per-page cap and de-duplication\<close>

text \<open>
  C5. The outline returned has at most 9 entries on any page \<open>p\<close>, and the loop leaves its
  state as it is on every line of a page that already counts 9 headings, whatever the
  line's score: headings are taken in encounter order.
\<close>

theorem per_page_cap:
  "(identify_headings lines pdf = Inr (title, entries) \<longrightarrow>
      length (filter (\<lambda>e. e_page e = p) entries) \<le> 9) \<and>
   (9 \<le> headings_per_page st (ln_page line) \<longrightarrow>
      scan_step heading_size_map body_text_size title' st line = st)"
proof
  show "identify_headings lines pdf = Inr (title, entries) \<longrightarrow>
      length (filter (\<lambda>e. e_page e = p) entries) \<le> 9"
  proof
    assume "identify_headings lines pdf = Inr (title, entries)"
    from identify_headings_Inr [OF this] obtain t0 st Q where
      inv: "scan_inv t0 lines st" and
      en: "entries = filter Q (map del_y0 (sort_outline (outline st)))"
      by blast
    have "length (filter (\<lambda>e. e_page e = p) entries)
          \<le> length (filter (\<lambda>e. e_page e = p) (map del_y0 (sort_outline (outline st))))"
      unfolding en by (rule length_filter_filter_le)
    also have "\<dots> = length (filter (\<lambda>r. r_page r = p) (sort_outline (outline st)))"
      by (simp add: filter_map comp_def)
    also have "\<dots> = length (filter (\<lambda>r. r_page r = p) (outline st))"
      by (rule length_filter_sort_outline)
    also have "\<dots> \<le> 9"
      using inv by (rule scan_inv_cap)
    finally show "length (filter (\<lambda>e. e_page e = p) entries) \<le> 9" .
  qed
next
  show "9 \<le> headings_per_page st (ln_page line) \<longrightarrow>
      scan_step heading_size_map body_text_size title' st line = st"
    by (simp add: scan_step_def Let_def)
qed


theorem per_page_cap_witness:
  "identify_headings crowded_page report_pdf =
     Inr (''Report'', map (\<lambda>t. \<lparr>level = ''H1'', e_text = t, e_page = 2\<rparr>)
       [''Part A'', ''Part B'', ''Part C'', ''Part D'', ''Part E'', ''Part F'', ''Part G'', ''Part H'', ''Part I'']) \<and>
   length (filter (\<lambda>e. e_page e = 2)
     (map (\<lambda>t. \<lparr>level = ''H1'', e_text = t, e_page = 2\<rparr>)
       [''Part A'', ''Part B'', ''Part C'', ''Part D'', ''Part E'', ''Part F'', ''Part G'', ''Part H'', ''Part I''])) \<le> 9 \<and>
   9 \<le> headings_per_page \<lparr>outline = [], seen_headings = {}, headings_per_page = (\<lambda>_. 9)\<rparr>
          (ln_page (example_line ''Part J'' 2 100 24 4 1)) \<and>
   scan_step Map.empty 12 ''Report'' \<lparr>outline = [], seen_headings = {}, headings_per_page = (\<lambda>_. 9)\<rparr>
     (example_line ''Part J'' 2 100 24 4 1)
     = \<lparr>outline = [], seen_headings = {}, headings_per_page = (\<lambda>_. 9)\<rparr>"
  using per_page_cap [of crowded_page report_pdf "''Report''"
      "map (\<lambda>t. \<lparr>level = ''H1'', e_text = t, e_page = 2\<rparr>)
       [''Part A'', ''Part B'', ''Part C'', ''Part D'', ''Part E'', ''Part F'', ''Part G'', ''Part H'', ''Part I'']"
      2 "\<lparr>outline = [], seen_headings = {}, headings_per_page = (\<lambda>_. 9)\<rparr>"
      "example_line ''Part J'' 2 100 24 4 1" Map.empty 12 "''Report''"]
    crowded_eval
  by simp

text \<open>
  C9. No two entries of the outline returned share the triple of lower-cased and trimmed
  text, page and level, and the loop skips a line whose triple is already in
  \<^verbatim>\<open>seen_headings\<close>.
\<close>

theorem no_duplicate_identifier:
  "(identify_headings lines pdf = Inr (title, entries) \<longrightarrow>
      distinct (map (\<lambda>e. (strip (lower (e_text e)), e_page e, level e)) entries)) \<and>
   (assign_level heading_size_map (avg_size line)
        (compute_heading_score line heading_size_map body_text_size) = Some lvl \<and>
    (strip (lower (ln_text line)), ln_page line, lvl) \<in> seen_headings st \<longrightarrow>
      scan_step heading_size_map body_text_size title' st line = st)"
proof
  show "identify_headings lines pdf = Inr (title, entries) \<longrightarrow>
      distinct (map (\<lambda>e. (strip (lower (e_text e)), e_page e, level e)) entries)"
  proof
    assume "identify_headings lines pdf = Inr (title, entries)"
    from identify_headings_Inr [OF this] obtain t0 st Q where
      inv: "scan_inv t0 lines st" and
      en: "entries = filter Q (map del_y0 (sort_outline (outline st)))"
      by blast
    have "distinct (map raw_identifier (outline st))"
      using inv by (simp add: scan_inv_def)
    then have "distinct (map raw_identifier (sort_outline (outline st)))"
      by (simp add: distinct_map_sort_outline)
    then have "distinct (map entry_identifier (map del_y0 (sort_outline (outline st))))"
      by (simp add: comp_def entry_identifier_del_y0)
    then have "distinct (map entry_identifier entries)"
      unfolding en by (rule distinct_map_filter)
    then show "distinct (map (\<lambda>e. (strip (lower (e_text e)), e_page e, level e)) entries)"
      by (simp add: entry_identifier_def [abs_def] heading_identifier_def)
  qed
next
  show "assign_level heading_size_map (avg_size line)
        (compute_heading_score line heading_size_map body_text_size) = Some lvl \<and>
    (strip (lower (ln_text line)), ln_page line, lvl) \<in> seen_headings st \<longrightarrow>
      scan_step heading_size_map body_text_size title' st line = st"
    by (simp add: scan_step_def Let_def heading_identifier_def)
qed

subsection \<open>The Numbered signal\<close>

lemma is_heading_numbered_examples:
  "is_heading_numbered ''1. Introduction''" "is_heading_numbered ''1.1 Scope''"
  "is_heading_numbered ''2.3.4''" "is_heading_numbered ''7 Results''"
  by code_simp+

lemma re_digits_remainders:
  assumes "r \<in> set (re_digits (ds @ t))" and "\<forall>c \<in> set ds. isdigit c"
    and "t = [] \<or> \<not> isdigit (hd t)"
  shows "\<exists>k < length ds. r = drop (Suc k) ds @ t"
  using assms
proof (induction ds)
  case Nil
  then show ?case by (cases t) auto
next
  case (Cons d ds)
  from Cons.prems have "r \<in> set (re_digits (ds @ t)) \<or> r = ds @ t" by auto
  then show ?case
  proof
    assume "r \<in> set (re_digits (ds @ t))"
    with Cons obtain k where "k < length ds" "r = drop (Suc k) ds @ t" by auto
    then have "Suc k < length (d # ds)" "r = drop (Suc (Suc k)) (d # ds) @ t" by simp_all
    then show ?thesis by blast
  next
    assume "r = ds @ t"
    then have "0 < length (d # ds)" "r = drop (Suc 0) (d # ds) @ t" by simp_all
    then show ?thesis by blast
  qed
qed

lemma re_groups_no_group:
  assumes "re_dot_digits s = []"
  shows "re_groups s = [s]"
  using assms by (subst re_groups.simps) simp

lemma isdigit_not_isspace: "isdigit c \<Longrightarrow> \<not> isspace c"
  by (auto simp: isdigit_def isspace_def)

lemma isdigit_not_dot: "isdigit c \<Longrightarrow> c \<noteq> CHR ''.''"
  by (auto simp: isdigit_def)

lemma newline_isspace: "isspace (CHR 0x0A)"
  by (simp add: isspace_def)

lemma dot_not_isspace: "\<not> isspace CHR ''.''"
  by (simp add: isspace_def)

text \<open>
  In general: digits, a dot, and then the end of the text or a character that is neither a
  digit nor whitespace, is never numbered.
\<close>

lemma dot_without_space_not_numbered:
  assumes "ds \<noteq> []" and "\<forall>c \<in> set ds. isdigit c"
    and "rest = [] \<or> (\<not> isdigit (hd rest) \<and> \<not> isspace (hd rest))"
  shows "\<not> is_heading_numbered (ds @ ''.'' @ rest)"
proof
  assume "is_heading_numbered (ds @ ''.'' @ rest)"
  then obtain r1 r2 where r1: "r1 \<in> set (re_digits (ds @ ''.'' @ rest))"
    and r2: "r2 \<in> set (re_groups r1)" and t: "re_tail r2"
    by (auto simp: is_heading_numbered_def)
  have "''.'' @ rest = [] \<or> \<not> isdigit (hd (''.'' @ rest))"
    by (simp add: isdigit_def)
  from re_digits_remainders [OF r1 assms(2) this]
  obtain k where k: "k < length ds" "r1 = drop (Suc k) ds @ ''.'' @ rest" by blast
  show False
  proof (cases "drop (Suc k) ds")
    case Nil
    with k have r1': "r1 = CHR ''.'' # rest" by simp
    have "re_dot_digits r1 = []"
      using assms(3) by (cases rest) (auto simp: r1' re_dot_digits_def)
    then have "re_groups r1 = [r1]" by (rule re_groups_no_group)
    with r2 have "r2 = CHR ''.'' # rest" by (simp add: r1')
    with t assms(3) show False
      by (cases rest) (auto simp: re_tail_def dot_not_isspace)
  next
    case (Cons d ds')
    then have "d \<in> set ds" by (metis in_set_dropD list.set_intros(1))
    with assms(2) have d: "isdigit d" by blast
    from Cons k have r1': "r1 = d # ds' @ ''.'' @ rest" by simp
    have "re_dot_digits r1 = []"
      using d by (simp add: r1' re_dot_digits_def isdigit_not_dot)
    then have "re_groups r1 = [r1]" by (rule re_groups_no_group)
    with r2 have "r2 = d # ds' @ ''.'' @ rest" by (simp add: r1')
    with t d show False
      by (auto simp: re_tail_def isdigit_not_isspace isdigit_not_dot newline_isspace
               split: list.splits)
  qed
qed

text \<open>
  C1. The claim gives the 25 points of the Numbered signal to every text whose digit groups
  are followed by a dot, such as \<open>1.Introduction\<close> or \<open>1.\<close>, the example of the docstring
  of \<^verbatim>\<open>is_heading_numbered\<close>. The pattern asks for whitespace after that dot: the
  function is false on \<open>1.Introduction\<close>, \<open>1.\<close> and \<open>12.\<close>, and the score of a line
  \<open>1.Introduction\<close> is 20 (Short only) where the line \<open>1. Introduction\<close> scores 45.
\<close>

theorem numbered_needs_space_after_dot:
  "\<not> is_heading_numbered ''1.Introduction'' \<and>
   \<not> is_heading_numbered ''1.'' \<and>
   \<not> is_heading_numbered ''12.'' \<and>
   compute_heading_score (body_line ''1.Introduction'' 2 700) Map.empty 12 = 20 \<and>
   compute_heading_score (body_line ''1. Introduction'' 2 700) Map.empty 12 = 45"
  by code_simp

subsection \<open>The assembled outline\<close>

lemma duplicate_page_eval:
  "identify_headings duplicate_page report_pdf =
     Inr (''Report'', [\<lparr>level = ''H1'', e_text = ''Part A'', e_page = 2\<rparr>,
                       \<lparr>level = ''H1'', e_text = ''Part A'', e_page = 3\<rparr>])"
  by code_simp

lemma shuffled_pages_eval:
  "identify_headings shuffled_pages report_pdf =
     Inr (''Report'', [\<lparr>level = ''H1'', e_text = ''Part A'', e_page = 2\<rparr>,
                       \<lparr>level = ''H1'', e_text = ''Part B'', e_page = 2\<rparr>,
                       \<lparr>level = ''H1'', e_text = ''Part C'', e_page = 3\<rparr>])"
  by code_simp

lemma two_chapters_assemble:
  "assemble two_chapters None =
     Inr (''No Title Found'', [\<lparr>level = ''H1'', e_text = ''Chapter 1'', e_page = 2\<rparr>,
                               \<lparr>level = ''H1'', e_text = ''Chapter 1'', e_page = 3\<rparr>])"
  by code_simp

lemma two_chapters_eval:
  "identify_headings two_chapters None =
     Inr (''Chapter 1'', [\<lparr>level = ''H1'', e_text = ''Chapter 1'', e_page = 3\<rparr>])"
  by code_simp

lemma only_sections_assemble:
  "assemble only_sections None =
     Inr (''No Title Found'', [\<lparr>level = ''H2'', e_text = ''Section A'', e_page = 2\<rparr>])"
  by code_simp

lemma fallback_cases:
  assumes "fallback t es = (t', es')"
  shows "(t' = t \<and> es' = es \<and> \<not> (t = ''No Title Found'' \<and> (\<exists>e \<in> set es. level e = ''H1''))) \<or>
         (t = ''No Title Found'' \<and>
          (\<exists>entry. find (\<lambda>e. level e = ''H1'') es = Some entry \<and> t' = e_text entry \<and>
             es' = filter (\<lambda>e. \<not> (e_text e = e_text entry \<and> e_page e = e_page entry)) es))"
  using assms by (auto simp: fallback_def find_None_iff split: if_splits option.splits)

theorem no_duplicate_identifier_witness:
  "identify_headings duplicate_page report_pdf =
     Inr (''Report'', [\<lparr>level = ''H1'', e_text = ''Part A'', e_page = 2\<rparr>,
                       \<lparr>level = ''H1'', e_text = ''Part A'', e_page = 3\<rparr>]) \<and>
   distinct (map (\<lambda>e. (strip (lower (e_text e)), e_page e, level e))
               [\<lparr>level = ''H1'', e_text = ''Part A'', e_page = 2\<rparr>,
                \<lparr>level = ''H1'', e_text = ''Part A'', e_page = 3\<rparr>]) \<and>
   assign_level [''H1'' \<mapsto> 24] (avg_size (example_line ''PART A'' 2 150 24 4 1))
     (compute_heading_score (example_line ''PART A'' 2 150 24 4 1) [''H1'' \<mapsto> 24] 12) = Some ''H1'' \<and>
   (strip (lower (ln_text (example_line ''PART A'' 2 150 24 4 1))),
    ln_page (example_line ''PART A'' 2 150 24 4 1), ''H1'')
     \<in> seen_headings \<lparr>outline = [], seen_headings = {(''part a'', 2, ''H1'')}, headings_per_page = (\<lambda>_. 1)\<rparr> \<and>
   scan_step [''H1'' \<mapsto> 24] 12 ''Report''
     \<lparr>outline = [], seen_headings = {(''part a'', 2, ''H1'')}, headings_per_page = (\<lambda>_. 1)\<rparr>
     (example_line ''PART A'' 2 150 24 4 1)
   = \<lparr>outline = [], seen_headings = {(''part a'', 2, ''H1'')}, headings_per_page = (\<lambda>_. 1)\<rparr>"
proof -
  have a: "assign_level [''H1'' \<mapsto> 24] (avg_size (example_line ''PART A'' 2 150 24 4 1))
     (compute_heading_score (example_line ''PART A'' 2 150 24 4 1) [''H1'' \<mapsto> 24] 12) = Some ''H1''"
    by code_simp
  have b: "(strip (lower (ln_text (example_line ''PART A'' 2 150 24 4 1))),
    ln_page (example_line ''PART A'' 2 150 24 4 1), ''H1'')
     \<in> seen_headings \<lparr>outline = [], seen_headings = {(''part a'', 2, ''H1'')}, headings_per_page = (\<lambda>_. 1)\<rparr>"
    by code_simp
  from no_duplicate_identifier [of duplicate_page report_pdf "''Report''"
      "[\<lparr>level = ''H1'', e_text = ''Part A'', e_page = 2\<rparr>,
        \<lparr>level = ''H1'', e_text = ''Part A'', e_page = 3\<rparr>]"
      "[''H1'' \<mapsto> 24]" "example_line ''PART A'' 2 150 24 4 1" 12 "''H1''"
      "\<lparr>outline = [], seen_headings = {(''part a'', 2, ''H1'')}, headings_per_page = (\<lambda>_. 1)\<rparr>"
      "''Report''"]
    duplicate_page_eval a b
  show ?thesis by blast
qed

text \<open>
  C2. In the outline returned no entry has the text of the final title on the title's page.
  An entry whose text equals the final title exists only when the title was promoted from
  the first H1 entry of the assembled outline, and it is then on another page than that
  entry; when the title was not promoted, no entry has its text on any page.
\<close>

theorem title_not_in_outline:
  assumes "identify_headings lines pdf = Inr (title, entries)"
  shows "\<exists>t0 es0. assemble lines pdf = Inr (t0, es0) \<and>
           (\<forall>x \<in> set entries. e_text x = title \<longrightarrow>
              t0 = ''No Title Found'' \<and>
              (\<exists>entry. find (\<lambda>e. level e = ''H1'') es0 = Some entry \<and>
                 title = e_text entry \<and> e_page x \<noteq> e_page entry))"
proof -
  from identify_headings_Inr [OF assms] obtain t0 st where
    c: "collect_headings lines pdf = Inr (t0, outline st)" and
    inv: "scan_inv t0 lines st" and
    f: "fallback t0 (map del_y0 (sort_outline (outline st))) = (title, entries)"
    by blast
  let ?es0 = "map del_y0 (sort_outline (outline st))"
  have a: "assemble lines pdf = Inr (t0, ?es0)"
    by (simp add: assemble_def c)
  have nt: "e_text x \<noteq> t0" if "x \<in> set ?es0" for x
    using that inv by (auto simp: scan_inv_def set_sort_outline)
  have "t0 = ''No Title Found'' \<and>
        (\<exists>entry. find (\<lambda>e. level e = ''H1'') ?es0 = Some entry \<and>
           title = e_text entry \<and> e_page x \<noteq> e_page entry)"
    if x: "x \<in> set entries" and xt: "e_text x = title" for x
  proof -
    from fallback_cases [OF f] show ?thesis
    proof
      assume "title = t0 \<and> entries = ?es0 \<and>
              \<not> (t0 = ''No Title Found'' \<and> (\<exists>e \<in> set ?es0. level e = ''H1''))"
      then have "title = t0" "x \<in> set ?es0" using x by simp_all
      with nt [of x] xt show ?thesis by simp
    next
      assume "t0 = ''No Title Found'' \<and>
          (\<exists>entry. find (\<lambda>e. level e = ''H1'') ?es0 = Some entry \<and> title = e_text entry \<and>
             entries = filter (\<lambda>e. \<not> (e_text e = e_text entry \<and> e_page e = e_page entry)) ?es0)"
      then obtain entry where t0: "t0 = ''No Title Found''" and
        fe: "find (\<lambda>e. level e = ''H1'') ?es0 = Some entry" and te: "title = e_text entry" and
        en: "entries = filter (\<lambda>e. \<not> (e_text e = e_text entry \<and> e_page e = e_page entry)) ?es0"
        by blast
      from x en have "\<not> (e_text x = e_text entry \<and> e_page x = e_page entry)" by simp
      with xt te have "e_page x \<noteq> e_page entry" by simp
      with t0 fe te show ?thesis by blast
    qed
  qed
  with a show ?thesis by blast
qed

theorem title_not_in_outline_witness:
  "identify_headings two_chapters None =
     Inr (''Chapter 1'', [\<lparr>level = ''H1'', e_text = ''Chapter 1'', e_page = 3\<rparr>]) \<and>
   (\<exists>t0 es0. assemble two_chapters None = Inr (t0, es0) \<and>
      (\<forall>x \<in> set [\<lparr>level = ''H1'', e_text = ''Chapter 1'', e_page = 3\<rparr>]. e_text x = ''Chapter 1'' \<longrightarrow>
         t0 = ''No Title Found'' \<and>
         (\<exists>entry. find (\<lambda>e. level e = ''H1'') es0 = Some entry \<and>
            ''Chapter 1'' = e_text entry \<and> e_page x \<noteq> e_page entry)))"
  using title_not_in_outline [OF two_chapters_eval] two_chapters_eval by blast


text \<open>
  C7. The outline returned is the list of the entries the loop accepted, each built from
  its source line with that line's top y-coordinate, sorted by page and then by that
  coordinate and thinned by the fallback: every pair of entries, adjacent ones among them,
  is in reading order, and entries with equal page and coordinate keep their order of
  encounter (the sort is stable).
\<close>

theorem outline_in_reading_order:
  assumes "identify_headings lines pdf = Inr (title, entries)"
  shows "\<exists>t0 acc Q.
           collect_headings lines pdf = Inr (t0, acc) \<and>
           (\<forall>r \<in> set acc. \<exists>l \<in> set lines. r = entry_of_line (r_level r) l) \<and>
           entries = map del_y0 (filter Q (sort_outline acc)) \<and>
           sorted_wrt reading_order (filter Q (sort_outline acc)) \<and>
           (\<forall>i. Suc i < length (filter Q (sort_outline acc)) \<longrightarrow>
                reading_order (filter Q (sort_outline acc) ! i) (filter Q (sort_outline acc) ! Suc i)) \<and>
           (\<forall>k. filter (\<lambda>x. sort_key_of x = k) (filter Q (sort_outline acc))
                = filter Q (filter (\<lambda>x. sort_key_of x = k) acc))"
proof -
  from identify_headings_Inr [OF assms] obtain t0 st Q where
    c: "collect_headings lines pdf = Inr (t0, outline st)" and
    inv: "scan_inv t0 lines st" and
    en: "entries = filter Q (map del_y0 (sort_outline (outline st)))"
    by blast
  let ?acc = "outline st"
  let ?raws = "filter (Q \<circ> del_y0) (sort_outline ?acc)"
  have src: "\<forall>r \<in> set ?acc. \<exists>l \<in> set lines. r = entry_of_line (r_level r) l"
    using inv unfolding scan_inv_def by blast
  have e: "entries = map del_y0 ?raws"
    by (simp add: en filter_map)
  have s: "sorted_wrt reading_order ?raws"
    by (rule sorted_wrt_filter) (rule sort_outline_reading_order)
  have adj: "\<forall>i. Suc i < length ?raws \<longrightarrow> reading_order (?raws ! i) (?raws ! Suc i)"
    using s by (simp add: sorted_wrt_iff_nth_less)
  have stab: "filter (\<lambda>x. sort_key_of x = k) ?raws = filter (Q \<circ> del_y0) (filter (\<lambda>x. sort_key_of x = k) ?acc)" for k
  proof -
    have "filter (\<lambda>x. sort_key_of x = k) ?raws
          = filter (Q \<circ> del_y0) (filter (\<lambda>x. sort_key_of x = k) (sort_outline ?acc))"
      by (simp add: conj_commute)
    then show ?thesis by (simp only: sort_outline_stable)
  qed
  from c src e s adj stab show ?thesis by blast
qed

theorem outline_in_reading_order_witness:
  "identify_headings shuffled_pages report_pdf =
     Inr (''Report'', [\<lparr>level = ''H1'', e_text = ''Part A'', e_page = 2\<rparr>,
                       \<lparr>level = ''H1'', e_text = ''Part B'', e_page = 2\<rparr>,
                       \<lparr>level = ''H1'', e_text = ''Part C'', e_page = 3\<rparr>]) \<and>
   (\<exists>t0 acc Q.
      collect_headings shuffled_pages report_pdf = Inr (t0, acc) \<and>
      (\<forall>r \<in> set acc. \<exists>l \<in> set shuffled_pages. r = entry_of_line (r_level r) l) \<and>
      [\<lparr>level = ''H1'', e_text = ''Part A'', e_page = 2\<rparr>,
       \<lparr>level = ''H1'', e_text = ''Part B'', e_page = 2\<rparr>,
       \<lparr>level = ''H1'', e_text = ''Part C'', e_page = 3\<rparr>] = map del_y0 (filter Q (sort_outline acc)) \<and>
      sorted_wrt reading_order (filter Q (sort_outline acc)) \<and>
      (\<forall>i. Suc i < length (filter Q (sort_outline acc)) \<longrightarrow>
           reading_order (filter Q (sort_outline acc) ! i) (filter Q (sort_outline acc) ! Suc i)) \<and>
      (\<forall>k. filter (\<lambda>x. sort_key_of x = k) (filter Q (sort_outline acc))
           = filter Q (filter (\<lambda>x. sort_key_of x = k) acc)))"
  using outline_in_reading_order [OF shuffled_pages_eval] shuffled_pages_eval by simp

text \<open>
  C4. When the title is still \<open>No Title Found\<close> after assembly and sorting and the outline
  is not empty: without an H1 entry the result is that title and that outline; with the first
  H1 entry at position \<open>i\<close>, the title returned is its text and the outline returned has
  lost every entry with that text on that page, and nothing else.
\<close>

theorem fallback_promotes_first_H1:
  assumes "assemble lines pdf = Inr (''No Title Found'', es)" and "es \<noteq> []"
  shows "((\<forall>e \<in> set es. level e \<noteq> ''H1'') \<longrightarrow>
            identify_headings lines pdf = Inr (''No Title Found'', es)) \<and>
         (\<forall>i < length es. level (es ! i) = ''H1'' \<and> (\<forall>j < i. level (es ! j) \<noteq> ''H1'') \<longrightarrow>
            identify_headings lines pdf =
              Inr (e_text (es ! i),
                   filter (\<lambda>e. \<not> (e_text e = e_text (es ! i) \<and> e_page e = e_page (es ! i))) es))"
proof (intro conjI impI allI)
  assume "\<forall>e \<in> set es. level e \<noteq> ''H1''"
  then have "find (\<lambda>e. level e = ''H1'') es = None"
    by (simp add: find_None_iff)
  with assms show "identify_headings lines pdf = Inr (''No Title Found'', es)"
    by (simp add: identify_headings_def fallback_def)
next
  fix i
  assume i: "i < length es" and h: "level (es ! i) = ''H1'' \<and> (\<forall>j < i. level (es ! j) \<noteq> ''H1'')"
  then have "find (\<lambda>e. level e = ''H1'') es = Some (es ! i)"
    by (auto simp: find_Some_iff)
  with assms show "identify_headings lines pdf =
              Inr (e_text (es ! i),
                   filter (\<lambda>e. \<not> (e_text e = e_text (es ! i) \<and> e_page e = e_page (es ! i))) es)"
    by (simp add: identify_headings_def fallback_def)
qed


theorem fallback_promotes_first_H1_witness:
  "assemble two_chapters None =
     Inr (''No Title Found'', [\<lparr>level = ''H1'', e_text = ''Chapter 1'', e_page = 2\<rparr>,
                               \<lparr>level = ''H1'', e_text = ''Chapter 1'', e_page = 3\<rparr>]) \<and>
   identify_headings two_chapters None =
     Inr (''Chapter 1'', [\<lparr>level = ''H1'', e_text = ''Chapter 1'', e_page = 3\<rparr>]) \<and>
   assemble only_sections None =
     Inr (''No Title Found'', [\<lparr>level = ''H2'', e_text = ''Section A'', e_page = 2\<rparr>]) \<and>
   identify_headings only_sections None =
     Inr (''No Title Found'', [\<lparr>level = ''H2'', e_text = ''Section A'', e_page = 2\<rparr>])"
proof -
  have ne: "[\<lparr>level = ''H1'', e_text = ''Chapter 1'', e_page = 2\<rparr>,
             \<lparr>level = ''H1'', e_text = ''Chapter 1'', e_page = 3\<rparr>] \<noteq> []"
           "[\<lparr>level = ''H2'', e_text = ''Section A'', e_page = 2\<rparr>] \<noteq> []"
    by simp_all
  from fallback_promotes_first_H1 [OF two_chapters_assemble ne(1)]
  have "identify_headings two_chapters None =
     Inr (''Chapter 1'', [\<lparr>level = ''H1'', e_text = ''Chapter 1'', e_page = 3\<rparr>])"
    by force
  moreover from fallback_promotes_first_H1 [OF only_sections_assemble ne(2)]
  have "identify_headings only_sections None =
     Inr (''No Title Found'', [\<lparr>level = ''H2'', e_text = ''Section A'', e_page = 2\<rparr>])"
    by simp
  ultimately show ?thesis
    using two_chapters_assemble only_sections_assemble by simp
qed

subsection \<open>The H4 tier\<close>

lemma tier_bonus_agree:
  assumes "m1 ''H1'' = m2 ''H1''" "m1 ''H2'' = m2 ''H2''" "m1 ''H3'' = m2 ''H3''"
  shows "tier_bonus m1 a = tier_bonus m2 a"
  by (simp add: tier_bonus_def assms)

lemma compute_heading_score_agree:
  assumes "m1 ''H1'' = m2 ''H1''" "m1 ''H2'' = m2 ''H2''" "m1 ''H3'' = m2 ''H3''"
  shows "compute_heading_score line m1 b = compute_heading_score line m2 b"
  by (simp add: compute_heading_score_def tier_bonus_agree [OF assms])

lemma assign_level_agree:
  assumes "m1 ''H1'' = m2 ''H1''" "m1 ''H2'' = m2 ''H2''" "m1 ''H3'' = m2 ''H3''"
  shows "assign_level m1 a s = assign_level m2 a s"
  by (simp add: assign_level_def assms)

lemma scan_step_agree:
  assumes "m1 ''H1'' = m2 ''H1''" "m1 ''H2'' = m2 ''H2''" "m1 ''H3'' = m2 ''H3''"
  shows "scan_step m1 b t = scan_step m2 b t"
  unfolding scan_step_def [abs_def]
    compute_heading_score_agree [OF assms] assign_level_agree [OF assms]
  by (rule refl)

text \<open>
  C10. Two heading-size maps that agree on H1, H2 and H3 give every line the same score and
  the same level, the loop the same final state, and the same title and outline after the
  sort and the fallback: the H4 entry is never read.
\<close>

theorem H4_tier_unused:
  assumes "m1 ''H1'' = m2 ''H1''" "m1 ''H2'' = m2 ''H2''" "m1 ''H3'' = m2 ''H3''"
  shows "compute_heading_score line m1 body_text_size = compute_heading_score line m2 body_text_size \<and>
         assign_level m1 a score = assign_level m2 a score \<and>
         scan_lines m1 body_text_size title lines = scan_lines m2 body_text_size title lines \<and>
         fallback title (map del_y0 (sort_outline (outline (scan_lines m1 body_text_size title lines))))
           = fallback title (map del_y0 (sort_outline (outline (scan_lines m2 body_text_size title lines))))"
proof -
  have "scan_lines m1 body_text_size title lines = scan_lines m2 body_text_size title lines"
    by (simp add: scan_lines_def scan_step_agree [OF assms])
  with compute_heading_score_agree [OF assms] assign_level_agree [OF assms]
  show ?thesis by simp
qed

theorem H4_tier_unused_witness:
  "build_heading_size_map [24, 20, 16, 14] ''H4'' = Some 14 \<and>
   ((build_heading_size_map [24, 20, 16, 14])(''H4'' := None)) ''H4'' = None \<and>
   compute_heading_score (example_line ''Part A'' 2 100 14 4 1) (build_heading_size_map [24, 20, 16, 14]) 12
     = compute_heading_score (example_line ''Part A'' 2 100 14 4 1)
         ((build_heading_size_map [24, 20, 16, 14])(''H4'' := None)) 12 \<and>
   assign_level (build_heading_size_map [24, 20, 16, 14]) 14 100
     = assign_level ((build_heading_size_map [24, 20, 16, 14])(''H4'' := None)) 14 100 \<and>
   scan_lines (build_heading_size_map [24, 20, 16, 14]) 12 ''Report'' crowded_page
     = scan_lines ((build_heading_size_map [24, 20, 16, 14])(''H4'' := None)) 12 ''Report'' crowded_page"
proof -
  let ?m = "build_heading_size_map [24, 20, 16, 14]"
  have h: "?m ''H1'' = (?m(''H4'' := None)) ''H1''" "?m ''H2'' = (?m(''H4'' := None)) ''H2''"
          "?m ''H3'' = (?m(''H4'' := None)) ''H3''"
    by simp_all
  have v: "?m ''H4'' = Some 14"
    by code_simp
  have n: "(?m(''H4'' := None)) ''H4'' = None"
    by simp
  from H4_tier_unused [OF h, of "example_line ''Part A'' 2 100 14 4 1" 12 14 100 "''Report''" crowded_page] v n
  show ?thesis by blast
qed

subsection \<open>No font size above the noise floor\<close>







subsection \<open>Heading tiers\<close>

lemma potential_heading_sizes_sorted: "sorted_wrt (>) (potential_heading_sizes sizes body)"
proof -
  have "sorted_wrt (<) (sort (remdups (filter (\<lambda>s. s > fmul body (double_of (12 / 10))) sizes)))"
    by (simp add: strict_sorted_iff)
  then show ?thesis
    by (simp add: potential_heading_sizes_def sorted_wrt_rev)
qed

lemma set_potential_heading_sizes:
  "set (potential_heading_sizes sizes body) = {s \<in> set sizes. s > fmul body (double_of (12 / 10))}"
  by (auto simp: potential_heading_sizes_def)

lemma build_heading_size_map_H1:
  "build_heading_size_map phs ''H1'' = (if phs \<noteq> [] then Some (phs ! 0) else None)"
  by (simp add: build_heading_size_map_def Let_def)

lemma build_heading_size_map_H2:
  "build_heading_size_map phs ''H2'' =
     (if 2 \<le> length phs \<and> phs ! 1 < fmul (phs ! 0) (double_of (95 / 100)) then Some (phs ! 1) else None)"
  by (simp add: build_heading_size_map_def Let_def)

lemma build_heading_size_map_H3:
  "build_heading_size_map phs ''H3'' =
     (if 3 \<le> length phs \<and> phs ! 2 < fmul (phs ! 0) (double_of (95 / 100)) then Some (phs ! 2) else None)"
  by (simp add: build_heading_size_map_def Let_def)

lemma build_heading_size_map_H4:
  "build_heading_size_map phs ''H4'' =
     (if 4 \<le> length phs \<and> phs ! 3 < fmul (phs ! 0) (double_of (95 / 100)) then Some (phs ! 3) else None)"
  by (simp add: build_heading_size_map_def Let_def)

lemma dom_build_heading_size_map: "dom (build_heading_size_map phs) \<subseteq> set tier_names"
  by (auto simp: build_heading_size_map_def Let_def tier_names_def split: if_splits)

lemma tier_value:
  assumes "k < 4" and "build_heading_size_map phs (tier_names ! k) = Some v"
  shows "k < length phs \<and> v = phs ! k"
proof -
  from assms(1) have "k = 0 \<or> k = 1 \<or> k = 2 \<or> k = 3" by arith
  then show ?thesis
    using assms(2)
    by (auto simp: tier_names_def build_heading_size_map_H1 build_heading_size_map_H2
          build_heading_size_map_H3 build_heading_size_map_H4 split: if_splits)
qed

lemma tier_gap_page_profile:
  "body_text_size_of (all_font_sizes tier_gap_page) = Some 12"
  "potential_heading_sizes (all_font_sizes tier_gap_page) 12 = [20, 39 / 2, 18]"
  "build_heading_size_map [20, 39 / 2, 18] ''H1'' = Some 20"
  "build_heading_size_map [20, 39 / 2, 18] ''H2'' = None"
  "build_heading_size_map [20, 39 / 2, 18] ''H3'' = Some 18"
  "build_heading_size_map [20, 39 / 2, 18] ''H4'' = None"
  by code_simp+

text \<open>
  The products are those of the doubles: \<open>12 * 1.2\<close> is below the double \<open>14.4\<close>, which
  is therefore a candidate over a body size of 12, and \<open>16.6 * 0.95\<close> is above the double
  \<open>15.77\<close>, which is therefore an H2 tier under an H1 of \<open>16.6\<close>.
\<close>

lemma double_threshold_examples:
  "body_text_size_of [12, 12, 12, double_of (144 / 10)] = Some 12"
  "potential_heading_sizes [12, 12, 12, double_of (144 / 10)] 12 = [double_of (144 / 10)]"
  "body_text_size_of [12, 12, 12, 12, 12, double_of (166 / 10), double_of (1577 / 100)] = Some 12"
  "potential_heading_sizes [12, 12, 12, 12, 12, double_of (166 / 10), double_of (1577 / 100)] 12
     = [double_of (166 / 10), double_of (1577 / 100)]"
  "build_heading_size_map [double_of (166 / 10), double_of (1577 / 100)] ''H2''
     = Some (double_of (1577 / 100))"
  by code_simp+

text \<open>
  C3. For the sizes collected from a document, their body size, and the candidates \<open>phs\<close>
  (the distinct sizes above 1.2 times the body size, in falling order) not empty: H1 is the
  largest candidate; for \<open>k\<close> = 2, 3, 4 the tier H\<open>k\<close> is present exactly when there are
  at least \<open>k\<close> candidates and the \<open>k\<close>-th is below 0.95 times the largest, and is then
  that candidate; the sizes of the tiers present fall strictly from H1 to H4; and there is a
  document with an H3 tier and no H2 tier. The products are the float products of the source.
\<close>

theorem heading_tiers:
  assumes "body_text_size_of sizes = Some body_text_size"
    and "phs = potential_heading_sizes sizes body_text_size" and "phs \<noteq> []"
  shows "sorted_wrt (>) phs \<and>
         set phs = {s \<in> set sizes. s > fmul body_text_size (double_of (12 / 10))} \<and>
         build_heading_size_map phs ''H1'' = Some (phs ! 0) \<and>
         (\<forall>s \<in> set phs. s \<le> phs ! 0) \<and>
         build_heading_size_map phs ''H2'' =
           (if 2 \<le> length phs \<and> phs ! 1 < fmul (phs ! 0) (double_of (95 / 100))
            then Some (phs ! 1) else None) \<and>
         build_heading_size_map phs ''H3'' =
           (if 3 \<le> length phs \<and> phs ! 2 < fmul (phs ! 0) (double_of (95 / 100))
            then Some (phs ! 2) else None) \<and>
         build_heading_size_map phs ''H4'' =
           (if 4 \<le> length phs \<and> phs ! 3 < fmul (phs ! 0) (double_of (95 / 100))
            then Some (phs ! 3) else None) \<and>
         dom (build_heading_size_map phs) \<subseteq> set tier_names \<and>
         (\<forall>i j x y. i < j \<and> j < 4 \<and>
              build_heading_size_map phs (tier_names ! i) = Some x \<and>
              build_heading_size_map phs (tier_names ! j) = Some y \<longrightarrow> y < x) \<and>
         (\<exists>lines body.
              body_text_size_of (all_font_sizes lines) = Some body \<and>
              build_heading_size_map (potential_heading_sizes (all_font_sizes lines) body) ''H2''
                = None \<and>
              build_heading_size_map (potential_heading_sizes (all_font_sizes lines) body) ''H3''
                \<noteq> None)"
proof -
  have srt: "sorted_wrt (>) phs"
    unfolding assms(2) by (rule potential_heading_sizes_sorted)
  have st: "set phs = {s \<in> set sizes. s > fmul body_text_size (double_of (12 / 10))}"
    unfolding assms(2) by (rule set_potential_heading_sizes)
  have h1: "build_heading_size_map phs ''H1'' = Some (phs ! 0)"
    using assms(3) by (simp add: build_heading_size_map_H1)
  have top: "\<forall>s \<in> set phs. s \<le> phs ! 0"
  proof
    fix s assume "s \<in> set phs"
    then obtain i where i: "i < length phs" "s = phs ! i" by (auto simp: in_set_conv_nth)
    show "s \<le> phs ! 0"
    proof (cases "i = 0")
      case True with i show ?thesis by simp
    next
      case False
      with i srt have "phs ! i < phs ! 0" by (simp add: sorted_wrt_iff_nth_less)
      with i show ?thesis by simp
    qed
  qed
  have desc: "\<forall>i j x y. i < j \<and> j < 4 \<and>
              build_heading_size_map phs (tier_names ! i) = Some x \<and>
              build_heading_size_map phs (tier_names ! j) = Some y \<longrightarrow> y < x"
  proof (intro allI impI)
    fix i j x y
    assume a: "i < j \<and> j < 4 \<and>
              build_heading_size_map phs (tier_names ! i) = Some x \<and>
              build_heading_size_map phs (tier_names ! j) = Some y"
    then have "i < 4" by simp
    with a tier_value [of i phs x] tier_value [of j phs y]
    have "i < length phs" "x = phs ! i" "j < length phs" "y = phs ! j" by simp_all
    with a srt show "y < x" by (simp add: sorted_wrt_iff_nth_less)
  qed
  have ex: "\<exists>lines body.
              body_text_size_of (all_font_sizes lines) = Some body \<and>
              build_heading_size_map (potential_heading_sizes (all_font_sizes lines) body) ''H2''
                = None \<and>
              build_heading_size_map (potential_heading_sizes (all_font_sizes lines) body) ''H3''
                \<noteq> None"
  proof (intro exI conjI)
    show "body_text_size_of (all_font_sizes tier_gap_page) = Some 12"
      by (rule tier_gap_page_profile)
    show "build_heading_size_map (potential_heading_sizes (all_font_sizes tier_gap_page) 12) ''H2'' = None"
      by (simp only: tier_gap_page_profile)
    show "build_heading_size_map (potential_heading_sizes (all_font_sizes tier_gap_page) 12) ''H3'' \<noteq> None"
      by (simp add: tier_gap_page_profile)
  qed
  from srt st h1 top desc ex dom_build_heading_size_map [of phs]
  show ?thesis
    by (simp only: build_heading_size_map_H2 build_heading_size_map_H3 build_heading_size_map_H4)
qed

theorem heading_tiers_witness:
  "body_text_size_of (all_font_sizes tier_gap_page) = Some 12 \<and>
   potential_heading_sizes (all_font_sizes tier_gap_page) 12 = [20, 39 / 2, 18] \<and>
   build_heading_size_map [20, 39 / 2, 18] ''H1'' = Some 20 \<and>
   build_heading_size_map [20, 39 / 2, 18] ''H2'' = None \<and>
   build_heading_size_map [20, 39 / 2, 18] ''H3'' = Some 18 \<and>
   build_heading_size_map [20, 39 / 2, 18] ''H4'' = None \<and>
   \<not> (39 / 2 < fmul 20 (double_of (95 / 100))) \<and>
   18 < fmul 20 (double_of (95 / 100))"
proof -
  have n: "[20, 39 / 2, 18 :: rat] \<noteq> []" by simp
  have c: "\<not> (39 / 2 < fmul 20 (double_of (95 / 100)))" "18 < fmul 20 (double_of (95 / 100))"
    by code_simp+
  from heading_tiers [OF tier_gap_page_profile(1) tier_gap_page_profile(2) [symmetric] n] c
  have "build_heading_size_map [20, 39 / 2, 18] ''H1'' = Some 20"
    "build_heading_size_map [20, 39 / 2, 18] ''H2'' = None"
    "build_heading_size_map [20, 39 / 2, 18] ''H3'' = Some 18"
    "build_heading_size_map [20, 39 / 2, 18] ''H4'' = None"
    by simp_all
  with tier_gap_page_profile(1,2) c show ?thesis by simp
qed

subsection \<open>Body text size\<close>

lemma first_occurrence_snoc:
  "rev (remdups (rev (xs @ [x]))) = (if x \<in> set xs then rev (remdups (rev xs)) else rev (remdups (rev xs)) @ [x])"
  by simp

lemma find_append: "find P (xs @ ys) = (case find P xs of Some x \<Rightarrow> Some x | None \<Rightarrow> find P ys)"
  by (induction xs) auto

lemma find_first_occurrence: "find P (rev (remdups (rev xs))) = find P xs"
proof (induction xs rule: rev_induct)
  case Nil
  show ?case by simp
next
  case (snoc x xs)
  show ?case
  proof (cases "x \<in> set xs")
    case True
    show ?thesis
    proof (cases "find P xs")
      case None
      with True have "\<not> P x" by (auto simp: find_None_iff)
      with None snoc True show ?thesis by (simp add: find_append)
    next
      case (Some y)
      with snoc True show ?thesis by (simp add: find_append)
    qed
  next
    case False
    with snoc show ?thesis by (simp add: find_append)
  qed
qed

lemma hd_sort_key_least:
  assumes "xs \<noteq> []"
  shows "hd (sort_key f xs) \<in> set xs \<and> (\<forall>y \<in> set xs. f (hd (sort_key f xs)) \<le> f y)"
proof -
  from assms have "sort_key f xs \<noteq> []" by (metis length_0_conv length_sort)
  then obtain h t where ht: "sort_key f xs = h # t" by (cases "sort_key f xs") auto
  have "sorted (map f (sort_key f xs))" by (rule sorted_sort_key)
  with ht have "\<forall>y \<in> set t. f h \<le> f y" by simp
  moreover have "set xs = insert h (set t)" using ht by (metis list.simps(15) set_sort)
  ultimately show ?thesis using ht by auto
qed

lemma hd_sort_key_first:
  assumes "xs \<noteq> []"
  shows "find (\<lambda>y. f y = f (hd (sort_key f xs))) xs = Some (hd (sort_key f xs))"
proof -
  from assms have "sort_key f xs \<noteq> []" by (metis length_0_conv length_sort)
  then obtain h t where ht: "sort_key f xs = h # t" by (cases "sort_key f xs") auto
  have "filter (\<lambda>y. f y = f h) xs = filter (\<lambda>y. f y = f h) (sort_key f xs)"
    by (simp only: sort_key_stable)
  also have "\<dots> = h # filter (\<lambda>y. f y = f h) t" by (simp add: ht)
  finally have "filter (\<lambda>y. f y = f h) xs = h # filter (\<lambda>y. f y = f h) t" .
  moreover have "find Q ys = (case filter Q ys of [] \<Rightarrow> None | z # _ \<Rightarrow> Some z)" for Q and ys :: "'a list"
    by (induction ys) auto
  ultimately show ?thesis by (simp add: ht)
qed


lemma find_map_eq: "find P (map f xs) = map_option f (find (\<lambda>x. P (f x)) xs)"
  by (induction xs) auto

lemma sort_nth_rank:
  fixes xs :: "'a :: linorder list"
  assumes "k < length xs"
  shows "length (filter (\<lambda>x. x < sort xs ! k) xs) \<le> k \<and>
         k < length (filter (\<lambda>x. x \<le> sort xs ! k) xs)"
proof -
  let ?s = "sort xs"
  let ?v = "?s ! k"
  have len: "length ?s = length xs" by simp
  have srt: "sorted ?s" by simp
  have below: "x \<le> ?v" if "x \<in> set (take (Suc k) ?s)" for x
  proof -
    from that obtain i where "i < length (take (Suc k) ?s)" "x = take (Suc k) ?s ! i"
      by (auto simp: in_set_conv_nth)
    then have "i \<le> k" "x = ?s ! i" by simp_all
    with srt assms len show ?thesis by (simp add: sorted_iff_nth_mono)
  qed
  have above: "?v \<le> x" if "x \<in> set (drop k ?s)" for x
  proof -
    from that obtain i where "i < length (drop k ?s)" "x = drop k ?s ! i"
      by (auto simp: in_set_conv_nth)
    then have "k + i < length ?s" "x = ?s ! (k + i)" by simp_all
    with srt show ?thesis by (simp add: sorted_iff_nth_mono)
  qed
  have cnt: "length (filter P xs) = length (filter P ?s)" for P
    by (simp add: filter_sort)
  have split: "?s = take k ?s @ drop k ?s" by simp
  have "\<forall>x \<in> set (drop k ?s). \<not> x < ?v"
    using above by (auto simp: not_less)
  then have "filter (\<lambda>x. x < ?v) (drop k ?s) = []"
    by (simp only: filter_empty_conv)
  then have "filter (\<lambda>x. x < ?v) ?s = filter (\<lambda>x. x < ?v) (take k ?s)"
    by (subst split) (simp only: filter_append append_Nil2)
  then have "length (filter (\<lambda>x. x < ?v) ?s) \<le> length (take k ?s)"
    by (simp only: length_filter_le)
  then have 1: "length (filter (\<lambda>x. x < ?v) xs) \<le> k"
    by (simp add: cnt [of "\<lambda>x. x < ?v"])
  have "filter (\<lambda>x. x \<le> ?v) (take (Suc k) ?s) = take (Suc k) ?s"
    using below by (simp add: filter_id_conv)
  moreover have "?s = take (Suc k) ?s @ drop (Suc k) ?s" by simp
  ultimately have "length (filter (\<lambda>x. x \<le> ?v) ?s)
      = length (take (Suc k) ?s) + length (filter (\<lambda>x. x \<le> ?v) (drop (Suc k) ?s))"
    by (metis filter_append length_append)
  then have 2: "k < length (filter (\<lambda>x. x \<le> ?v) xs)"
    using assms by (simp add: cnt [of "\<lambda>x. x \<le> ?v"])
  from 1 2 show ?thesis by blast
qed

lemma median_value:
  assumes "sizes \<noteq> []"
  shows "median sizes =
           Some (if odd (length sizes) then sort sizes ! (length sizes div 2)
                 else fdiv (fadd (sort sizes ! ((length sizes - 1) div 2))
                                 (sort sizes ! (length sizes div 2))) 2)"
proof (cases "odd (length sizes)")
  have ne: "sort sizes \<noteq> []"
    using assms by (metis length_0_conv length_sort)
  case True
  then have "length sizes mod 2 = 1" by (simp add: odd_iff_mod_2_eq_one)
  with assms ne True show ?thesis by (simp add: median_def Let_def)
next
  have ne: "sort sizes \<noteq> []"
    using assms by (metis length_0_conv length_sort)
  case False
  then have m: "length sizes mod 2 \<noteq> 1" by (simp add: odd_iff_mod_2_eq_one)
  from False assms have "length sizes div 2 - 1 = (length sizes - 1) div 2"
    by (cases "length sizes") (auto elim!: evenE)
  with assms ne False m show ?thesis by (simp add: median_def Let_def)
qed

lemma round_half_even_nearest:
  "\<bar>t - of_int (round_half_even t)\<bar> \<le> 1 / 2 \<and>
   (\<bar>t - of_int (round_half_even t)\<bar> = 1 / 2 \<longrightarrow> even (round_half_even t))"
proof -
  let ?f = "\<lfloor>t\<rfloor>"
  let ?d = "t - of_int ?f"
  have d: "0 \<le> ?d" "?d < 1" by linarith+
  consider "?d < 1 / 2" | "?d > 1 / 2" | "?d = 1 / 2" by linarith
  then show ?thesis
  proof cases
    case 1
    then have "round_half_even t = ?f" by (simp add: round_half_even_def Let_def)
    with 1 d show ?thesis by simp
  next
    case 2
    then have r: "round_half_even t = ?f + 1" by (simp add: round_half_even_def Let_def)
    have "t - of_int (?f + 1) = ?d - 1" by simp
    with 2 d have "\<bar>t - of_int (?f + 1)\<bar> < 1 / 2" by linarith
    with r show ?thesis by simp
  next
    case 3
    then have r: "round_half_even t = (if ?f mod 2 = 0 then ?f else ?f + 1)"
      by (simp add: round_half_even_def Let_def)
    have e: "even (round_half_even t)"
      unfolding r by (auto simp: even_iff_mod_2_eq_zero) presburger
    have "\<bar>t - of_int (round_half_even t)\<bar> \<le> 1 / 2"
      unfolding r using 3 by (auto simp: algebra_simps)
    with e show ?thesis by simp
  qed
qed

lemma round1_nearest_tenth:
  "\<exists>t. round1 s = double_of (of_int t / 10) \<and>
       \<bar>s * 10 - of_int t\<bar> \<le> 1 / 2 \<and> (\<bar>s * 10 - of_int t\<bar> = 1 / 2 \<longrightarrow> even t)"
  using round_half_even_nearest [of "s * 10"]
  by (intro exI [of _ "round_half_even (s * 10)"]) (simp add: round1_def)

lemma most_common_head:
  assumes "xs \<noteq> []"
  shows "most_common xs \<noteq> [] \<and>
         fst (hd (most_common xs)) \<in> set xs \<and>
         (\<forall>x. count_list xs x \<le> count_list xs (fst (hd (most_common xs)))) \<and>
         find (\<lambda>x. count_list xs x = count_list xs (fst (hd (most_common xs)))) xs
           = Some (fst (hd (most_common xs)))"
proof -
  let ?u = "rev (remdups (rev xs))"
  let ?g = "\<lambda>x. (x, count_list xs x)"
  let ?f = "\<lambda>p :: 'a \<times> nat. - int (snd p)"
  let ?items = "counter_items xs"
  let ?h = "hd (most_common xs)"
  have items: "?items = map ?g ?u" by (simp add: counter_items_def)
  from assms have ne: "?items \<noteq> []" by (simp add: counter_items_def)
  then have mne: "most_common xs \<noteq> []"
    unfolding most_common_def by (metis length_0_conv length_sort)
  from hd_sort_key_least [OF ne, of ?f]
  have hin: "?h \<in> set ?items" and least: "\<forall>y \<in> set ?items. ?f ?h \<le> ?f y"
    by (simp_all add: most_common_def)
  from hin obtain m where m: "m \<in> set xs" "?h = ?g m"
    by (auto simp: items)
  then have fm: "fst ?h = m" and sm: "snd ?h = count_list xs m" by simp_all
  have mx: "count_list xs x \<le> count_list xs m" for x
  proof (cases "x \<in> set xs")
    case True
    then have "?g x \<in> set ?items" by (simp add: items)
    with least have "?f ?h \<le> ?f (?g x)" by blast
    then show ?thesis by (simp add: sm)
  next
    case False
    then show ?thesis by (simp add: count_list_0_iff)
  qed
  from hd_sort_key_first [OF ne, of ?f]
  have "find (\<lambda>y. ?f y = ?f ?h) (map ?g ?u) = Some ?h"
    by (simp add: most_common_def items)
  then have "map_option ?g (find (\<lambda>x. count_list xs x = count_list xs m) ?u) = Some (?g m)"
    by (simp add: find_map_eq sm m(2) [symmetric])
  then have "find (\<lambda>x. count_list xs x = count_list xs m) ?u = Some m"
    by auto
  then have fst_first: "find (\<lambda>x. count_list xs x = count_list xs m) xs = Some m"
    by (simp add: find_first_occurrence)
  from mne m(1) mx fst_first show ?thesis by (simp add: fm)
qed


text \<open>
  The double \<open>12.35\<close> lies below 12.35 and rounds to \<open>12.3\<close>; the double \<open>12.05\<close> lies
  above 12.05 and rounds to \<open>12.1\<close>.
\<close>

lemma body_text_size_examples:
  "round1 (double_of (1235 / 100)) = double_of (123 / 10)"
  "round1 (double_of (1205 / 100)) = double_of (121 / 10)"
  "body_text_size_of [double_of (1235 / 100), double_of (1235 / 100), double_of (1235 / 100)]
     = Some (double_of (1235 / 100))"
  "median [10, 10, 12, 12, 12, 9, 19 / 2] = Some 10"
  "body_text_size_of [10, 10, 12, 12, 12, 9, 19 / 2] = Some 12"
  "median [double_of (1204 / 100), double_of (1204 / 100), double_of (1204 / 100),
           double_of (1204 / 100), 30, 30, 30] = Some (double_of (1204 / 100))"
  "body_text_size_of [double_of (1204 / 100), double_of (1204 / 100), double_of (1204 / 100),
           double_of (1204 / 100), 30, 30, 30] = Some (double_of (1204 / 100))"
  "median [10, 12, 11, 13] = Some (23 / 2)"
  by code_simp+

text \<open>
  C6. For a non-empty list of collected sizes of length \<open>n\<close> the body text size is the
  median of the sizes, raised to the most frequent of the sizes rounded to one decimal when
  that modal value is at least the median. The median is the middle element of the sorted
  sizes for odd \<open>n\<close> and the float mean of the two middle elements for even \<open>n\<close>, the
  middle elements being fixed by their ranks among the sizes. Rounding to one decimal gives
  the double of the tenth nearest to the size, a tie going to the even tenth. The modal
  value has the largest count among the rounded sizes and is the first of the rounded sizes,
  in order of collection, with that count.
\<close>

theorem body_size_is_median_or_mode:
  assumes "sizes \<noteq> []"
  shows "\<exists>lo hi med mode.
           lo = sort sizes ! ((length sizes - 1) div 2) \<and>
           hi = sort sizes ! (length sizes div 2) \<and>
           length (filter (\<lambda>x. x < lo) sizes) \<le> (length sizes - 1) div 2 \<and>
           (length sizes - 1) div 2 < length (filter (\<lambda>x. x \<le> lo) sizes) \<and>
           length (filter (\<lambda>x. x < hi) sizes) \<le> length sizes div 2 \<and>
           length sizes div 2 < length (filter (\<lambda>x. x \<le> hi) sizes) \<and>
           med = (if odd (length sizes) then hi else fdiv (fadd lo hi) 2) \<and>
           median sizes = Some med \<and>
           (\<forall>s. \<exists>t. round1 s = double_of (of_int t / 10) \<and>
                 \<bar>s * 10 - of_int t\<bar> \<le> 1 / 2 \<and> (\<bar>s * 10 - of_int t\<bar> = 1 / 2 \<longrightarrow> even t)) \<and>
           mode \<in> set (map round1 sizes) \<and>
           (\<forall>x. count_list (map round1 sizes) x \<le> count_list (map round1 sizes) mode) \<and>
           find (\<lambda>x. count_list (map round1 sizes) x = count_list (map round1 sizes) mode)
             (map round1 sizes) = Some mode \<and>
           body_text_size_of sizes = Some (if mode \<ge> med then mode else med)"
proof -
  let ?n = "length sizes"
  let ?lo = "sort sizes ! ((?n - 1) div 2)"
  let ?hi = "sort sizes ! (?n div 2)"
  let ?med = "if odd ?n then ?hi else fdiv (fadd ?lo ?hi) 2"
  let ?rs = "map round1 sizes"
  let ?mode = "fst (hd (most_common ?rs))"
  from assms have n: "0 < ?n" by simp
  then have k: "(?n - 1) div 2 < ?n" "?n div 2 < ?n" by arith+
  from sort_nth_rank [OF k(1)] have lo:
    "length (filter (\<lambda>x. x < ?lo) sizes) \<le> (?n - 1) div 2"
    "(?n - 1) div 2 < length (filter (\<lambda>x. x \<le> ?lo) sizes)"
    by blast+
  from sort_nth_rank [OF k(2)] have hi:
    "length (filter (\<lambda>x. x < ?hi) sizes) \<le> ?n div 2"
    "?n div 2 < length (filter (\<lambda>x. x \<le> ?hi) sizes)"
    by blast+
  have med: "median sizes = Some ?med"
    using median_value [OF assms] by (simp split: if_splits)
  have rnd: "\<forall>s. \<exists>t. round1 s = double_of (of_int t / 10) \<and>
                 \<bar>s * 10 - of_int t\<bar> \<le> 1 / 2 \<and> (\<bar>s * 10 - of_int t\<bar> = 1 / 2 \<longrightarrow> even t)"
    using round1_nearest_tenth by blast
  from assms have "?rs \<noteq> []" by simp
  from most_common_head [OF this] have
    ne: "most_common ?rs \<noteq> []" and
    mem: "?mode \<in> set ?rs" and
    mx: "\<forall>x. count_list ?rs x \<le> count_list ?rs ?mode" and
    fst_: "find (\<lambda>x. count_list ?rs x = count_list ?rs ?mode) ?rs = Some ?mode"
    by blast+
  have "body_text_size_of sizes = Some (max ?med ?mode)"
    using med ne by (simp add: body_text_size_of_def Let_def)
  then have body: "body_text_size_of sizes = Some (if ?mode \<ge> ?med then ?mode else ?med)"
    by (simp add: max_def)
  show ?thesis
    by (intro exI [of _ ?lo] exI [of _ ?hi] exI [of _ ?med] exI [of _ ?mode] conjI
          refl lo hi med rnd mem mx fst_ body)
qed

theorem body_size_is_median_or_mode_witness:
  "(\<exists>med mode. median [10, 10, 12, 12, 12, 9, 19 / 2] = Some med \<and> med = 10 \<and> mode = 12 \<and>
      mode \<in> set (map round1 [10, 10, 12, 12, 12, 9, 19 / 2]) \<and>
      body_text_size_of [10, 10, 12, 12, 12, 9, 19 / 2] = Some mode) \<and>
   (\<exists>med mode.
      median [double_of (1204 / 100), double_of (1204 / 100), double_of (1204 / 100),
              double_of (1204 / 100), 30, 30, 30] = Some med \<and>
      med = double_of (1204 / 100) \<and> mode \<le> med \<and>
      mode \<in> set (map round1 [double_of (1204 / 100), double_of (1204 / 100),
              double_of (1204 / 100), double_of (1204 / 100), 30, 30, 30]) \<and>
      body_text_size_of [double_of (1204 / 100), double_of (1204 / 100), double_of (1204 / 100),
              double_of (1204 / 100), 30, 30, 30] = Some med)"
proof
  let ?A = "[10, 10, 12, 12, 12, 9, 19 / 2 :: rat]"
  have n: "?A \<noteq> []" by simp
  from body_size_is_median_or_mode [OF n] obtain med mode where
    m: "median ?A = Some med" and
    mem: "mode \<in> set (map round1 ?A)" and
    b: "body_text_size_of ?A = Some (if mode \<ge> med then mode else med)"
    by blast
  have med: "med = 10"
    by (metis m body_text_size_examples(4) option.inject)
  have "(if mode \<ge> med then mode else med) = 12"
    by (metis b body_text_size_examples(5) option.inject)
  with med have mode: "mode = 12" by (simp split: if_splits)
  have "body_text_size_of ?A = Some mode"
    unfolding mode by (rule body_text_size_examples(5))
  with m med mode mem
  show "\<exists>med mode. median ?A = Some med \<and> med = 10 \<and> mode = 12 \<and>
      mode \<in> set (map round1 ?A) \<and> body_text_size_of ?A = Some mode"
    by blast
next
  let ?B = "[double_of (1204 / 100), double_of (1204 / 100), double_of (1204 / 100),
              double_of (1204 / 100), 30, 30, 30]"
  have n: "?B \<noteq> []" by simp
  from body_size_is_median_or_mode [OF n] obtain med mode where
    m: "median ?B = Some med" and
    mem: "mode \<in> set (map round1 ?B)" and
    b: "body_text_size_of ?B = Some (if mode \<ge> med then mode else med)"
    by blast
  have med: "med = double_of (1204 / 100)"
    by (metis m body_text_size_examples(6) option.inject)
  have "(if mode \<ge> med then mode else med) = double_of (1204 / 100)"
    by (metis b body_text_size_examples(7) option.inject)
  then have "(if mode \<ge> med then mode else med) = med"
    by (simp only: med)
  then have mode: "mode \<le> med" by (simp split: if_splits)
  have "body_text_size_of ?B = Some med"
    unfolding med by (rule body_text_size_examples(7))
  with m med mode mem
  show "\<exists>med mode. median ?B = Some med \<and> med = double_of (1204 / 100) \<and> mode \<le> med \<and>
      mode \<in> set (map round1 ?B) \<and> body_text_size_of ?B = Some med"
    by blast
qed

end
